theory Spec2Isabelle
  imports Main
begin

section \<open>The store\<close>

text \<open>
  The scripts of the repository work on three tables of a relational store: questions,
  options (each owned by a question) and attempts (each naming a question and the option
  that was selected). The schema file is not among the sources; the columns below are the
  ones the scripts read and write. A table is the list of its rows in insertion order, and
  the identifiers of questions and options are drawn from two serial counters.
\<close>

record question_row =
  q_id :: nat
  q_module_id :: string
  q_topic :: "string option"
  q_text :: string
  q_difficulty :: int
  q_slide_reference :: "string option"
  q_explanation :: "string option"

record option_row =
  o_id :: nat
  o_question_id :: nat
  o_text :: string
  o_is_correct :: bool

record attempt_row =
  a_id :: nat
  a_question_id :: nat
  a_selected_option_id :: nat

text \<open>
  What the scripts print with \<open>console.warn\<close> and \<open>console.error\<close>; the
  progress messages of \<open>console.log\<close> are left out.
\<close>

datatype event = Warn_invalid | Error_importing | Error_no_questions

text \<open>
  The world a script runs in: the three tables, the two counters, the snapshot of the
  tables taken when a transaction was opened (\<open>None\<close> outside a transaction), the
  console, and the fault schedule of the store. The schedule says, statement by statement,
  whether the store raises (a lost connection, a violated constraint): its head belongs to
  the next statement, and an empty schedule is a store that never fails.
\<close>

record world =
  questions :: "question_row list"
  options :: "option_row list"
  attempts :: "attempt_row list"
  question_seq :: nat
  option_seq :: nat
  snapshot :: "(question_row list \<times> option_row list \<times> attempt_row list) option"
  faults :: "bool list"
  console :: "event list"

text \<open>A call either returns a value or throws; both leave a world behind.\<close>

datatype 'a result = Returned 'a | Threw

definition bind_io :: "'a result \<times> world \<Rightarrow> ('a \<Rightarrow> world \<Rightarrow> 'b result \<times> world) \<Rightarrow> 'b result \<times> world" where
  "bind_io r f = (case r of (Returned a, w) \<Rightarrow> f a w | (Threw, w) \<Rightarrow> (Threw, w))"

definition raises :: "world \<Rightarrow> bool" where
  "raises w = (case faults w of [] \<Rightarrow> False | b # _ \<Rightarrow> b)"

definition advance :: "world \<Rightarrow> world" where
  "advance w = w\<lparr>faults := tl (faults w)\<rparr>"

definition log_event :: "event \<Rightarrow> world \<Rightarrow> world" where
  "log_event e w = w\<lparr>console := console w @ [e]\<rparr>"

subsection \<open>Statements\<close>

definition select_questions :: "(question_row \<Rightarrow> bool) \<Rightarrow> world \<Rightarrow> question_row list result \<times> world" where
  "select_questions P w =
     (if raises w then (Threw, advance w)
      else (Returned (filter P (questions w)), advance w))"

definition select_options :: "(option_row \<Rightarrow> bool) \<Rightarrow> world \<Rightarrow> option_row list result \<times> world" where
  "select_options P w =
     (if raises w then (Threw, advance w)
      else (Returned (filter P (options w)), advance w))"

definition delete_questions :: "(question_row \<Rightarrow> bool) \<Rightarrow> world \<Rightarrow> unit result \<times> world" where
  "delete_questions P w =
     (if raises w then (Threw, advance w)
      else (Returned (), (advance w)\<lparr>questions := filter (\<lambda>q. \<not> P q) (questions w)\<rparr>))"

definition delete_options :: "(option_row \<Rightarrow> bool) \<Rightarrow> world \<Rightarrow> unit result \<times> world" where
  "delete_options P w =
     (if raises w then (Threw, advance w)
      else (Returned (), (advance w)\<lparr>options := filter (\<lambda>opt. \<not> P opt) (options w)\<rparr>))"

definition delete_attempts :: "(attempt_row \<Rightarrow> bool) \<Rightarrow> world \<Rightarrow> unit result \<times> world" where
  "delete_attempts P w =
     (if raises w then (Threw, advance w)
      else (Returned (), (advance w)\<lparr>attempts := filter (\<lambda>a. \<not> P a) (attempts w)\<rparr>))"

text \<open>
  \<open>INSERT ... RETURNING id\<close>: the new row takes the next value of the counter. The
  counters are serial sequences: an insert that raises has still drawn its value, and no
  rollback gives a value back.
\<close>

definition insert_question ::
  "string \<Rightarrow> string option \<Rightarrow> string \<Rightarrow> int \<Rightarrow> string option \<Rightarrow> string option \<Rightarrow> world \<Rightarrow> nat result \<times> world" where
  "insert_question moduleId topic txt difficulty slideReference explanation w =
     (if raises w then (Threw, (advance w)\<lparr>question_seq := Suc (question_seq w)\<rparr>)
      else (Returned (question_seq w),
            (advance w)\<lparr>questions := questions w @
                [\<lparr>q_id = question_seq w, q_module_id = moduleId, q_topic = topic, q_text = txt,
                  q_difficulty = difficulty, q_slide_reference = slideReference,
                  q_explanation = explanation\<rparr>],
              question_seq := Suc (question_seq w)\<rparr>))"

definition insert_option :: "nat \<Rightarrow> string \<Rightarrow> bool \<Rightarrow> world \<Rightarrow> unit result \<times> world" where
  "insert_option questionId txt isCorrect w =
     (if raises w then (Threw, (advance w)\<lparr>option_seq := Suc (option_seq w)\<rparr>)
      else (Returned (),
            (advance w)\<lparr>options := options w @
                [\<lparr>o_id = option_seq w, o_question_id = questionId, o_text = txt,
                  o_is_correct = isCorrect\<rparr>],
              option_seq := Suc (option_seq w)\<rparr>))"

section \<open>Candidate records\<close>

text \<open>
  A record of a data file, as the interface \<open>MCQQuestion\<close> types it, each field
  possibly missing: \<open>None\<close> is JavaScript's \<open>undefined\<close>. Options that are
  present are an array of strings, so \<open>Array.isArray\<close> fails exactly on missing
  options; a record whose options are of another type (a string, say, which has a length
  and characters) is not a value of this type. The correct index is an integer of any sign
  and size; the scripts compare it to a position with \<open>===\<close>, so an index that is
  no position of the array equals none.
\<close>

record candidate =
  c_question :: "string option"
  c_options :: "string list option"
  c_correctIndex :: "int option"
  c_slideLink :: "string option"

text \<open>A missing or empty string is falsy; \<open>x || null\<close> keeps a truthy \<open>x\<close>.\<close>

definition truthy :: "string option \<Rightarrow> bool" where
  "truthy s = (case s of None \<Rightarrow> False | Some x \<Rightarrow> x \<noteq> [])"

definition or_null :: "string option \<Rightarrow> string option" where
  "or_null s = (if truthy s then s else None)"

text \<open>\<open>xs.slice(i, j)\<close> for \<open>0 \<le> i\<close> and \<open>0 \<le> j\<close>.\<close>

definition slice :: "nat \<Rightarrow> nat \<Rightarrow> 'a list \<Rightarrow> 'a list" where
  "slice i j xs = take (j - i) (drop i xs)"

section \<open>scripts/import.ts\<close>

definition in_partition :: "string \<Rightarrow> string \<Rightarrow> question_row \<Rightarrow> bool" where
  "in_partition moduleId topic q = (q_module_id q = moduleId \<and> q_topic q = Some topic)"

text \<open>The loop of \<open>deleteExistingQuestions\<close> over the rows it selected.\<close>

fun delete_options_of :: "question_row list \<Rightarrow> world \<Rightarrow> unit result \<times> world" where
  "delete_options_of [] w = (Returned (), w)"
| "delete_options_of (question # rest) w =
     bind_io (delete_options (\<lambda>opt. o_question_id opt = q_id question) w)
       (\<lambda>_. delete_options_of rest)"

definition deleteExistingQuestions :: "string \<Rightarrow> string \<Rightarrow> world \<Rightarrow> nat result \<times> world" where
  "deleteExistingQuestions moduleId topic w =
     bind_io (select_questions (in_partition moduleId topic) w)
       (\<lambda>questionsToDelete w1.
          if length questionsToDelete = 0 then (Returned 0, w1)
          else bind_io (delete_options_of questionsToDelete w1)
                 (\<lambda>_ w2. bind_io (delete_questions (in_partition moduleId topic) w2)
                    (\<lambda>_ w3. (Returned (length questionsToDelete), w3))))"

text \<open>The loop over \<open>item.options\<close>, from position \<open>j\<close> on.\<close>

fun insert_options :: "nat \<Rightarrow> string list \<Rightarrow> int option \<Rightarrow> nat \<Rightarrow> world \<Rightarrow> unit result \<times> world" where
  "insert_options questionId [] correctIndex j w = (Returned (), w)"
| "insert_options questionId (x # rest) correctIndex j w =
     bind_io (insert_option questionId x (correctIndex = Some (int j)) w)
       (\<lambda>_. insert_options questionId rest correctIndex (Suc j))"

text \<open>
  One turn of the inner loop of \<open>importQuestions\<close>: the body of the \<open>try\<close> and its
  \<open>catch\<close>. The state is the counter \<open>imported\<close> and the world.
\<close>

fun import_item :: "string \<Rightarrow> string \<Rightarrow> candidate \<Rightarrow> nat \<times> world \<Rightarrow> nat \<times> world" where
  "import_item moduleId topic item (imported, w) =
     (if \<not> truthy (c_question item) \<or> c_options item = None \<or> c_correctIndex item = None
      then (imported, log_event Warn_invalid w)
      else case bind_io
                  (insert_question moduleId (Some topic) (the (c_question item)) 2
                     (or_null (c_slideLink item)) None w)
                  (\<lambda>questionId. insert_options questionId (the (c_options item))
                     (c_correctIndex item) 0) of
             (Returned _, w') \<Rightarrow> (imported + 1, w')
           | (Threw, w') \<Rightarrow> (imported, log_event Error_importing w'))"

definition import_batch :: "string \<Rightarrow> string \<Rightarrow> candidate list \<Rightarrow> nat \<times> world \<Rightarrow> nat \<times> world" where
  "import_batch moduleId topic batch st = foldl (\<lambda>s item. import_item moduleId topic item s) st batch"

text \<open>
  The outer loop, \<open>for (let i = 0; i < questionsData.length; i += batchSize)\<close>. The
  script fixes \<open>batchSize\<close> to 5; the loop is written for any size, and with size 0 it
  would not end, so the result is an option.
\<close>

partial_function (option) batch_loop ::
  "nat \<Rightarrow> string \<Rightarrow> string \<Rightarrow> candidate list \<Rightarrow> nat \<Rightarrow> nat \<times> world \<Rightarrow> (nat \<times> world) option" where
  "batch_loop batchSize moduleId topic questionsData i st =
     (if i < length questionsData
      then batch_loop batchSize moduleId topic questionsData (i + batchSize)
             (import_batch moduleId topic
                (slice i (min (i + batchSize) (length questionsData)) questionsData) st)
      else Some st)"

declare batch_loop.simps [code]

definition importQuestions_sized ::
  "nat \<Rightarrow> string \<Rightarrow> string \<Rightarrow> candidate list \<Rightarrow> world \<Rightarrow> (nat \<times> world) option" where
  "importQuestions_sized batchSize moduleId topic questionsData w =
     batch_loop batchSize moduleId topic questionsData 0 (0, w)"

definition importQuestions :: "string \<Rightarrow> string \<Rightarrow> candidate list \<Rightarrow> world \<Rightarrow> (nat \<times> world) option" where
  "importQuestions = importQuestions_sized 5"

text \<open>
  \<open>processModule\<close>, from the list that \<open>extractQuestionsFromFile\<close> returned: nothing
  is deleted when the list is empty.
\<close>

definition processModule :: "string \<Rightarrow> string \<Rightarrow> candidate list \<Rightarrow> world \<Rightarrow> (unit result \<times> world) option" where
  "processModule moduleId topic qs w =
     (if length qs = 0 then Some (Returned (), log_event Error_no_questions w)
      else case deleteExistingQuestions moduleId topic w of
             (Threw, w1) \<Rightarrow> Some (Threw, w1)
           | (Returned _, w1) \<Rightarrow>
               (case importQuestions moduleId topic qs w1 of
                  None \<Rightarrow> None
                | Some (_, w2) \<Rightarrow> Some (Returned (), w2)))"

section \<open>temp_scripts/importMCQ.ts\<close>

text \<open>
  \<open>clearQuestionsForTopic\<close> and \<open>importQuestionsForTopic\<close> issue, statement for
  statement, what \<open>deleteExistingQuestions\<close> and \<open>importQuestions\<close> of
  \<open>scripts/import.ts\<close> issue; only the spelling of the columns and the messages differ.
\<close>

definition clearQuestionsForTopic :: "string \<Rightarrow> string \<Rightarrow> world \<Rightarrow> nat result \<times> world" where
  "clearQuestionsForTopic = deleteExistingQuestions"

definition importQuestionsForTopic :: "string \<Rightarrow> string \<Rightarrow> candidate list \<Rightarrow> world \<Rightarrow> (nat \<times> world) option" where
  "importQuestionsForTopic = importQuestions"

section \<open>server/scripts/importQuestions.ts\<close>

text \<open>
  The topic is read off the slide link: the piece after the last underscore, with the first
  \<open>.pdf\<close> removed, and \<open>General\<close> when that is empty or there is no link.
\<close>

definition last_segment :: "string \<Rightarrow> string" where
  "last_segment s = rev (takeWhile (\<lambda>c. c \<noteq> CHR ''_'') (rev s))"

fun replace_first :: "string \<Rightarrow> string \<Rightarrow> string \<Rightarrow> string" where
  "replace_first pat rep [] = (if pat = [] then rep else [])"
| "replace_first pat rep (c # cs) =
     (if take (length pat) (c # cs) = pat then rep @ drop (length pat) (c # cs)
      else c # replace_first pat rep cs)"

definition topic_of_slideLink :: "string option \<Rightarrow> string" where
  "topic_of_slideLink slideLink =
     (if truthy slideLink
      then (let r = replace_first ''.pdf'' [] (last_segment (the slideLink))
            in if r = [] then ''General'' else r)
      else ''General'')"

text \<open>
  One turn of the loop. There is no validation here. A record without question text cannot
  be stored (the column is taken to be NOT NULL): the store rejects the insert after
  drawing its identifier, and the handler of that error reads
  \<open>questionData.question.substring\<close>, which throws in turn: the call ends. A record
  without options fails at \<open>questionData.options.length\<close>, after its question row
  was written.
\<close>

definition import_item_server :: "string \<Rightarrow> candidate \<Rightarrow> world \<Rightarrow> unit result \<times> world" where
  "import_item_server moduleId questionData w =
     (case c_question questionData of
        None \<Rightarrow> (Threw, (advance w)\<lparr>question_seq := Suc (question_seq w)\<rparr>)
      | Some txt \<Rightarrow>
          (case insert_question moduleId (Some (topic_of_slideLink (c_slideLink questionData))) txt 2
                  (Some (if truthy (c_slideLink questionData) then the (c_slideLink questionData) else []))
                  (Some []) w of
             (Threw, w1) \<Rightarrow> (Returned (), log_event Error_importing w1)
           | (Returned questionId, w1) \<Rightarrow>
               (case c_options questionData of
                  None \<Rightarrow> (Returned (), log_event Error_importing w1)
                | Some opts \<Rightarrow>
                    (case insert_options questionId opts (c_correctIndex questionData) 0 w1 of
                       (Threw, w2) \<Rightarrow> (Returned (), log_event Error_importing w2)
                     | (Returned _, w2) \<Rightarrow> (Returned (), w2)))))"

fun importQuestions_server :: "string \<Rightarrow> candidate list \<Rightarrow> world \<Rightarrow> unit result \<times> world" where
  "importQuestions_server moduleId [] w = (Returned (), w)"
| "importQuestions_server moduleId (questionData # rest) w =
     bind_io (import_item_server moduleId questionData w)
       (\<lambda>_. importQuestions_server moduleId rest)"

section \<open>scripts/import-module.js\<close>

text \<open>
  Transactions: \<open>BEGIN\<close> keeps the tables, \<open>ROLLBACK\<close> puts them back, and the
  counters are not rolled back. The three commands themselves do not fail in this model,
  and the connection is taken to be there (\<open>pool.connect\<close> returned).
\<close>

definition query_BEGIN :: "world \<Rightarrow> world" where
  "query_BEGIN w = w\<lparr>snapshot := Some (questions w, options w, attempts w)\<rparr>"

definition query_COMMIT :: "world \<Rightarrow> world" where
  "query_COMMIT w = w\<lparr>snapshot := None\<rparr>"

definition query_ROLLBACK :: "world \<Rightarrow> world" where
  "query_ROLLBACK w =
     (case snapshot w of
        None \<Rightarrow> w
      | Some (qs, os, as) \<Rightarrow> w\<lparr>questions := qs, options := os, attempts := as, snapshot := None\<rparr>)"

text \<open>\<open>topic.toUpperCase()\<close>, on the letters of ASCII.\<close>

definition upper_char :: "char \<Rightarrow> char" where
  "upper_char c = (let n = (of_char c :: nat) in if 97 \<le> n \<and> n \<le> 122 then char_of (n - 32) else c)"

definition toUpperCase :: "string \<Rightarrow> string" where
  "toUpperCase s = map upper_char s"

text \<open>
  \<open>DELETE FROM options WHERE question_id IN (SELECT id FROM questions WHERE ...)\<close>, one
  statement.
\<close>

definition delete_options_in_partition :: "string \<Rightarrow> string \<Rightarrow> world \<Rightarrow> unit result \<times> world" where
  "delete_options_in_partition moduleId topic w =
     delete_options
       (\<lambda>opt. o_question_id opt \<in> q_id ` set (filter (in_partition moduleId topic) (questions w))) w"

text \<open>
  \<open>Math.ceil(questionsData.length / batchSize)\<close> is a number of JavaScript: dividing by
  zero gives \<open>Infinity\<close>, or \<open>NaN\<close> for \<open>0 / 0\<close>, and \<open>batchIndex < NaN\<close> is false.
\<close>

datatype jsnum = Finite nat | Infinity | NaN

definition total_batches :: "nat \<Rightarrow> nat \<Rightarrow> jsnum" where
  "total_batches n batchSize =
     (if batchSize = 0 then (if n = 0 then NaN else Infinity)
      else Finite ((n + batchSize - 1) div batchSize))"

definition less_js :: "nat \<Rightarrow> jsnum \<Rightarrow> bool" where
  "less_js k x = (case x of Finite n \<Rightarrow> k < n | Infinity \<Rightarrow> True | NaN \<Rightarrow> False)"

text \<open>The records of one batch, inside its transaction; an error leaves the loop.\<close>

fun import_batch_module :: "string \<Rightarrow> string \<Rightarrow> candidate list \<Rightarrow> world \<Rightarrow> unit result \<times> world" where
  "import_batch_module moduleId formattedTopic [] w = (Returned (), w)"
| "import_batch_module moduleId formattedTopic (question # rest) w =
     (if \<not> truthy (c_question question) \<or> c_options question = None \<or> c_correctIndex question = None
      then import_batch_module moduleId formattedTopic rest (log_event Warn_invalid w)
      else bind_io
             (bind_io
                (insert_question moduleId (Some formattedTopic) (the (c_question question)) 2
                   (or_null (c_slideLink question)) None w)
                (\<lambda>questionId. insert_options questionId (the (c_options question))
                   (c_correctIndex question) 0))
             (\<lambda>_. import_batch_module moduleId formattedTopic rest))"

partial_function (option) module_batches ::
  "nat \<Rightarrow> string \<Rightarrow> string \<Rightarrow> candidate list \<Rightarrow> nat \<Rightarrow> world \<Rightarrow> (unit result \<times> world) option" where
  "module_batches batchSize moduleId formattedTopic questionsData batchIndex w =
     (if less_js batchIndex (total_batches (length questionsData) batchSize)
      then (let start = batchIndex * batchSize;
                stop = min (start + batchSize) (length questionsData);
                batch = slice start stop questionsData
            in case import_batch_module moduleId formattedTopic batch (query_BEGIN w) of
                 (Threw, w1) \<Rightarrow> Some (Threw, w1)
               | (Returned _, w1) \<Rightarrow>
                   module_batches batchSize moduleId formattedTopic questionsData
                     (Suc batchIndex) (query_COMMIT w1))
      else Some (Returned (), w))"

declare module_batches.simps [code]

text \<open>
  \<open>importQuestions\<close> of this script: the old rows are deleted in a transaction of their
  own, then every batch is inserted in its own transaction. The handler rolls the open
  transaction back and throws again. The value returned is the length of the input.
\<close>

definition importQuestions_module ::
  "string \<Rightarrow> string \<Rightarrow> candidate list \<Rightarrow> nat \<Rightarrow> world \<Rightarrow> (nat result \<times> world) option" where
  "importQuestions_module moduleId topic questionsData batchSize w =
     (let formattedTopic = toUpperCase topic in
      case bind_io (delete_options_in_partition moduleId formattedTopic (query_BEGIN w))
             (\<lambda>_. delete_questions (in_partition moduleId formattedTopic)) of
        (Threw, w1) \<Rightarrow> Some (Threw, query_ROLLBACK w1)
      | (Returned _, w1) \<Rightarrow>
          (case module_batches batchSize moduleId formattedTopic questionsData 0 (query_COMMIT w1) of
             None \<Rightarrow> None
           | Some (Threw, w2) \<Rightarrow> Some (Threw, query_ROLLBACK w2)
           | Some (Returned _, w2) \<Rightarrow> Some (Returned (length questionsData), w2)))"

section \<open>The cleanup script\<close>

definition validModules :: "string list" where
  "validModules = [''focs'', ''bcr'', ''msk'', ''anatomy'']"

definition validTopics :: "string list" where
  "validTopics = [''FOCS1'', ''FOCS2'', ''FOCS3'', ''FOCS4'', ''FOCS5'',
                  ''BCR1'', ''BCR2'', ''BCR3'', ''BCR4'', ''MSK1'', ''MSK2'', ''Anatomy'']"

text \<open>\<open>toLowerCase\<close> on the letters of ASCII, and \<open>s.includes(sub)\<close>.\<close>

definition lower_char :: "char \<Rightarrow> char" where
  "lower_char c = (let n = (of_char c :: nat) in if 65 \<le> n \<and> n \<le> 90 then char_of (n + 32) else c)"

definition toLowerCase :: "string \<Rightarrow> string" where
  "toLowerCase s = map lower_char s"

fun includes_str :: "string \<Rightarrow> string \<Rightarrow> bool" where
  "includes_str [] sub = (sub = [])"
| "includes_str (c # cs) sub = (take (length sub) (c # cs) = sub \<or> includes_str cs sub)"

text \<open>The filter of the script: \<open>q.topic || ''\<close> reads a missing topic as empty.\<close>

definition is_invalid :: "question_row \<Rightarrow> bool" where
  "is_invalid q =
     (q_module_id q \<notin> set validModules
      \<or> (case q_topic q of None \<Rightarrow> [] | Some t \<Rightarrow> t) \<notin> set validTopics
      \<or> includes_str (toLowerCase (q_text q)) ''sample'')"

fun delete_options_by_ids :: "nat list \<Rightarrow> world \<Rightarrow> unit result \<times> world" where
  "delete_options_by_ids [] w = (Returned (), w)"
| "delete_options_by_ids (questionId # rest) w =
     bind_io (delete_options (\<lambda>opt. o_question_id opt = questionId) w)
       (\<lambda>_. delete_options_by_ids rest)"

fun delete_questions_by_ids :: "nat list \<Rightarrow> world \<Rightarrow> unit result \<times> world" where
  "delete_questions_by_ids [] w = (Returned (), w)"
| "delete_questions_by_ids (questionId # rest) w =
     bind_io (delete_questions (\<lambda>q. q_id q = questionId) w)
       (\<lambda>_. delete_questions_by_ids rest)"

text \<open>\<open>main\<close> of the cleanup script; an error of the store ends it.\<close>

definition cleanupDatabase :: "world \<Rightarrow> unit result \<times> world" where
  "cleanupDatabase w =
     bind_io (select_questions (\<lambda>_. True) w)
       (\<lambda>allQuestions w1.
          let invalidQuestions = filter is_invalid allQuestions in
          if length invalidQuestions = 0 then (Returned (), w1)
          else
            let invalidQuestionIds = map q_id invalidQuestions in
            bind_io (select_options (\<lambda>opt. o_question_id opt \<in> set invalidQuestionIds) w1)
              (\<lambda>invalidOptions w2.
                 let invalidOptionIds = map o_id invalidOptions in
                 bind_io
                   (if length invalidOptionIds > 0
                    then delete_attempts (\<lambda>a. a_selected_option_id a \<in> set invalidOptionIds) w2
                    else (Returned (), w2))
                   (\<lambda>_ w3.
                      bind_io (delete_attempts (\<lambda>a. a_question_id a \<in> set invalidQuestionIds) w3)
                        (\<lambda>_ w4.
                           bind_io (delete_options_by_ids invalidQuestionIds w4)
                             (\<lambda>_ w5.
                                bind_io (delete_questions_by_ids invalidQuestionIds w5)
                                  (\<lambda>_ w6.
                                     bind_io (select_questions (\<lambda>_. True) w6)
                                       (\<lambda>remainingQuestions w7. (Returned (), w7))))))))"

section \<open>Partitions and their content\<close>

text \<open>
  The partition of a module and a topic is the list of the questions stored under that
  key; a question owns the options that carry its identifier. The content of a partition
  is what it holds apart from the generated identifiers: for each question, in order, its
  columns and the texts and flags of its options, in order.
\<close>

definition partition_questions :: "string \<Rightarrow> string \<Rightarrow> world \<Rightarrow> question_row list" where
  "partition_questions moduleId topic w = filter (in_partition moduleId topic) (questions w)"

definition options_of :: "world \<Rightarrow> nat \<Rightarrow> option_row list" where
  "options_of w questionId = filter (\<lambda>opt. o_question_id opt = questionId) (options w)"

definition partition_options :: "string \<Rightarrow> string \<Rightarrow> world \<Rightarrow> option_row list" where
  "partition_options moduleId topic w =
     filter (\<lambda>opt. o_question_id opt \<in> q_id ` set (partition_questions moduleId topic w)) (options w)"

type_synonym content = "string \<times> int \<times> string option \<times> string option \<times> (string \<times> bool) list"

definition question_content :: "world \<Rightarrow> question_row \<Rightarrow> content" where
  "question_content w q =
     (q_text q, q_difficulty q, q_slide_reference q, q_explanation q,
      map (\<lambda>opt. (o_text opt, o_is_correct opt)) (options_of w (q_id q)))"

definition partition_content :: "string \<Rightarrow> string \<Rightarrow> world \<Rightarrow> content list" where
  "partition_content moduleId topic w =
     map (question_content w) (partition_questions moduleId topic w)"

text \<open>
  The identifiers of a store are well formed when no two questions share one and every
  identifier in use, of a question or in the question column of an option, was drawn from
  the counter.
\<close>

definition wf_store :: "world \<Rightarrow> bool" where
  "wf_store w =
     (distinct (map q_id (questions w))
      \<and> (\<forall>q\<in>set (questions w). q_id q < question_seq w)
      \<and> (\<forall>opt\<in>set (options w). o_question_id opt < question_seq w))"

text \<open>
  The check the scripts make on a record, and the validity the specification asks for:
  question text that is not empty, options that are an array, and a correct index that is
  a position of that array.
\<close>

definition passes_validation :: "candidate \<Rightarrow> bool" where
  "passes_validation item =
     (\<not> (\<not> truthy (c_question item) \<or> c_options item = None \<or> c_correctIndex item = None))"

definition valid_record :: "candidate \<Rightarrow> bool" where
  "valid_record item =
     (case (c_question item, c_options item, c_correctIndex item) of
        (Some txt, Some opts, Some ci) \<Rightarrow> txt \<noteq> [] \<and> 0 \<le> ci \<and> ci < int (length opts)
      | _ \<Rightarrow> False)"

text \<open>
  What a record is expected to become: its options in their order, the one at the correct
  index flagged, under a question of difficulty 2.
\<close>

definition marked_options :: "string list \<Rightarrow> int option \<Rightarrow> (string \<times> bool) list" where
  "marked_options opts correctIndex =
     map (\<lambda>j. (opts ! j, correctIndex = Some (int j))) [0..<length opts]"

definition expected_content :: "candidate \<Rightarrow> content" where
  "expected_content item =
     (the (c_question item), 2, or_null (c_slideLink item), None,
      marked_options (the (c_options item)) (c_correctIndex item))"

text \<open>
  The rows that a run without faults writes: the option rows of one question, from
  position \<open>j\<close> and identifier \<open>k\<close> on, the rows of one accepted record, and the effect
  of a whole list of records.
\<close>

fun option_rows :: "nat \<Rightarrow> string list \<Rightarrow> int option \<Rightarrow> nat \<Rightarrow> nat \<Rightarrow> option_row list" where
  "option_rows questionId [] correctIndex j k = []"
| "option_rows questionId (x # rest) correctIndex j k =
     \<lparr>o_id = k, o_question_id = questionId, o_text = x, o_is_correct = (correctIndex = Some (int j))\<rparr>
       # option_rows questionId rest correctIndex (Suc j) (Suc k)"

definition seed_item :: "string \<Rightarrow> string \<Rightarrow> candidate \<Rightarrow> world \<Rightarrow> world" where
  "seed_item moduleId topic item w =
     w\<lparr>questions := questions w @
          [\<lparr>q_id = question_seq w, q_module_id = moduleId, q_topic = Some topic,
            q_text = the (c_question item), q_difficulty = 2,
            q_slide_reference = or_null (c_slideLink item), q_explanation = None\<rparr>],
       question_seq := Suc (question_seq w),
       options := options w @
          option_rows (question_seq w) (the (c_options item)) (c_correctIndex item) 0 (option_seq w),
       option_seq := option_seq w + length (the (c_options item))\<rparr>"

definition skip_or_seed :: "string \<Rightarrow> string \<Rightarrow> candidate \<Rightarrow> world \<Rightarrow> world" where
  "skip_or_seed moduleId topic item w =
     (if passes_validation item then seed_item moduleId topic item w
      else log_event Warn_invalid w)"

definition seed_all :: "string \<Rightarrow> string \<Rightarrow> candidate list \<Rightarrow> world \<Rightarrow> world" where
  "seed_all moduleId topic qs w = foldl (\<lambda>v item. skip_or_seed moduleId topic item v) w qs"

definition clear_partition :: "string \<Rightarrow> string \<Rightarrow> world \<Rightarrow> world" where
  "clear_partition moduleId topic w =
     w\<lparr>options := filter (\<lambda>opt. o_question_id opt \<notin> q_id ` set (partition_questions moduleId topic w)) (options w),
       questions := filter (\<lambda>q. \<not> in_partition moduleId topic q) (questions w)\<rparr>"

text \<open>Every question of the second store is one of the first or has difficulty 2.\<close>

definition level2_added :: "world \<Rightarrow> world \<Rightarrow> bool" where
  "level2_added w w' = (\<forall>q\<in>set (questions w'). q \<in> set (questions w) \<or> q_difficulty q = 2)"

section \<open>Example data\<close>

text \<open>
  A store whose partition FOCS2 of module focs holds one question, its option and an
  attempt on them, and some candidate records.
\<close>

definition example_store :: world where
  "example_store =
     \<lparr>questions = [\<lparr>q_id = 1, q_module_id = ''focs'', q_topic = Some ''FOCS2'', q_text = ''old question'',
                     q_difficulty = 2, q_slide_reference = None, q_explanation = None\<rparr>],
      options = [\<lparr>o_id = 1, o_question_id = 1, o_text = ''old option'', o_is_correct = True\<rparr>],
      attempts = [\<lparr>a_id = 1, a_question_id = 1, a_selected_option_id = 1\<rparr>],
      question_seq = 2, option_seq = 2, snapshot = None, faults = [], console = []\<rparr>"

definition record_B :: candidate where
  "record_B = \<lparr>c_question = Some ''Q1'', c_options = Some [''A'', ''B'', ''C''],
               c_correctIndex = Some 1, c_slideLink = None\<rparr>"

definition record_A :: candidate where
  "record_A = \<lparr>c_question = Some ''Q2'', c_options = Some [''D'', ''E'', ''F''],
               c_correctIndex = Some 0, c_slideLink = Some ''Lecture01_FOCS.pdf''\<rparr>"

definition record_C :: candidate where
  "record_C = \<lparr>c_question = Some ''Q3'', c_options = Some [''G'', ''H'', ''I''],
               c_correctIndex = Some 2, c_slideLink = None\<rparr>"

definition record_no_options :: candidate where
  "record_no_options = \<lparr>c_question = Some ''Q4'', c_options = Some [],
               c_correctIndex = Some 0, c_slideLink = None\<rparr>"

definition record_no_text :: candidate where
  "record_no_text = \<lparr>c_question = None, c_options = Some [''A'', ''B''],
               c_correctIndex = Some 0, c_slideLink = None\<rparr>"

definition record_index_5 :: candidate where
  "record_index_5 = \<lparr>c_question = Some ''Q5'', c_options = Some [''A'', ''B''],
               c_correctIndex = Some 5, c_slideLink = None\<rparr>"

definition store_after_no_options :: world where
  "store_after_no_options =
     \<lparr>questions = [\<lparr>q_id = 2, q_module_id = ''focs'', q_topic = Some ''FOCS2'', q_text = ''Q1'',
                     q_difficulty = 2, q_slide_reference = None, q_explanation = None\<rparr>,
                   \<lparr>q_id = 3, q_module_id = ''focs'', q_topic = Some ''FOCS2'', q_text = ''Q4'',
                     q_difficulty = 2, q_slide_reference = None, q_explanation = None\<rparr>],
      options = [\<lparr>o_id = 2, o_question_id = 2, o_text = ''A'', o_is_correct = False\<rparr>,
                 \<lparr>o_id = 3, o_question_id = 2, o_text = ''B'', o_is_correct = True\<rparr>,
                 \<lparr>o_id = 4, o_question_id = 2, o_text = ''C'', o_is_correct = False\<rparr>],
      attempts = [\<lparr>a_id = 1, a_question_id = 1, a_selected_option_id = 1\<rparr>],
      question_seq = 4, option_seq = 5, snapshot = None, faults = [], console = []\<rparr>"

definition store_failing :: world where
  "store_failing = example_store\<lparr>faults := [False, False, True]\<rparr>"

definition store_emptied :: world where
  "store_emptied =
     \<lparr>questions = [], options = [],
      attempts = [\<lparr>a_id = 1, a_question_id = 1, a_selected_option_id = 1\<rparr>],
      question_seq = 2, option_seq = 2, snapshot = None, faults = [], console = []\<rparr>"

definition store_emptied_by_failure :: world where
  "store_emptied_by_failure =
     \<lparr>questions = [], options = [],
      attempts = [\<lparr>a_id = 1, a_question_id = 1, a_selected_option_id = 1\<rparr>],
      question_seq = 3, option_seq = 2, snapshot = None, faults = [], console = []\<rparr>"

definition sample_question :: question_row where
  "sample_question =
     \<lparr>q_id = 1, q_module_id = ''focs'', q_topic = Some ''FOCS2'',
      q_text = ''A blood Sample is drawn. Which tube is used?'',
      q_difficulty = 2, q_slide_reference = None, q_explanation = None\<rparr>"

definition store_with_sample :: world where
  "store_with_sample =
     \<lparr>questions = [sample_question],
      options = [\<lparr>o_id = 1, o_question_id = 1, o_text = ''EDTA'', o_is_correct = True\<rparr>],
      attempts = [\<lparr>a_id = 1, a_question_id = 1, a_selected_option_id = 1\<rparr>],
      question_seq = 2, option_seq = 2, snapshot = None, faults = [], console = []\<rparr>"

definition store_swept :: world where
  "store_swept =
     \<lparr>questions = [], options = [], attempts = [],
      question_seq = 2, option_seq = 2, snapshot = None, faults = [], console = []\<rparr>"

definition general_question :: question_row where
  "general_question =
     \<lparr>q_id = 2, q_module_id = ''focs'', q_topic = Some ''General'',
      q_text = ''What is a cell?'',
      q_difficulty = 2, q_slide_reference = Some [], q_explanation = Some []\<rparr>"

definition store_mixed :: world where
  "store_mixed =
     example_store\<lparr>questions := questions example_store @ [general_question],
                   options := options example_store @
                     [\<lparr>o_id = 2, o_question_id = 2, o_text = ''A unit of life'', o_is_correct = True\<rparr>],
                   question_seq := 3, option_seq := 3\<rparr>"

definition store_with_hard_question :: world where
  "store_with_hard_question =
     example_store\<lparr>questions :=
       [\<lparr>q_id = 1, q_module_id = ''focs'', q_topic = Some ''FOCS3'', q_text = ''hard question'',
         q_difficulty = 3, q_slide_reference = None, q_explanation = None\<rparr>]\<rparr>"

definition store_failing_late :: world where
  "store_failing_late = example_store\<lparr>faults := [False, False, False, False, False, True]\<rparr>"

definition store_half_written :: world where
  "store_half_written =
     \<lparr>questions = [\<lparr>q_id = 2, q_module_id = ''focs'', q_topic = Some ''FOCS2'', q_text = ''Q1'',
                     q_difficulty = 2, q_slide_reference = None, q_explanation = None\<rparr>],
      options = [\<lparr>o_id = 2, o_question_id = 2, o_text = ''A'', o_is_correct = False\<rparr>],
      attempts = [\<lparr>a_id = 1, a_question_id = 1, a_selected_option_id = 1\<rparr>],
      question_seq = 3, option_seq = 4, snapshot = None, faults = [], console = [Error_importing]\<rparr>"

definition store_failing_in_second_run :: world where
  "store_failing_in_second_run =
     example_store\<lparr>faults := [False, False, False, False, False, False, False,
                              False, False, False, True]\<rparr>"

definition store_after_first_run :: world where
  "store_after_first_run =
     \<lparr>questions = [\<lparr>q_id = 2, q_module_id = ''focs'', q_topic = Some ''FOCS2'', q_text = ''Q1'',
                     q_difficulty = 2, q_slide_reference = None, q_explanation = None\<rparr>],
      options = [\<lparr>o_id = 2, o_question_id = 2, o_text = ''A'', o_is_correct = False\<rparr>,
                 \<lparr>o_id = 3, o_question_id = 2, o_text = ''B'', o_is_correct = True\<rparr>,
                 \<lparr>o_id = 4, o_question_id = 2, o_text = ''C'', o_is_correct = False\<rparr>],
      attempts = [\<lparr>a_id = 1, a_question_id = 1, a_selected_option_id = 1\<rparr>],
      question_seq = 3, option_seq = 5, snapshot = None,
      faults = [False, False, False, True], console = []\<rparr>"

definition store_after_second_run :: world where
  "store_after_second_run =
     \<lparr>questions = [], options = [],
      attempts = [\<lparr>a_id = 1, a_question_id = 1, a_selected_option_id = 1\<rparr>],
      question_seq = 4, option_seq = 5, snapshot = None, faults = [], console = [Error_importing]\<rparr>"

section \<open>Auxiliary notions\<close>

text \<open>
  The three tables of a world; a world with its fault schedule and snapshot cleared, to
  compare what two runs stored; the batches of a list; and the loop over the batches of
  \<open>scripts/import-module.js\<close> as a recursion over their list.
\<close>

definition tables :: "world \<Rightarrow> question_row list \<times> option_row list \<times> attempt_row list" where
  "tables w = (questions w, options w, attempts w)"

definition calm :: "world \<Rightarrow> world" where
  "calm w = w\<lparr>faults := [], snapshot := None\<rparr>"

function chunks :: "nat \<Rightarrow> 'a list \<Rightarrow> 'a list list" where
  "chunks n xs = (if n = 0 \<or> xs = [] then [] else take n xs # chunks n (drop n xs))"
  by pat_completeness auto
termination
  by (relation "measure (\<lambda>(n, xs). length xs)") auto

fun run_batches :: "string \<Rightarrow> string \<Rightarrow> candidate list list \<Rightarrow> world \<Rightarrow> unit result \<times> world" where
  "run_batches moduleId formattedTopic [] w = (Returned (), w)"
| "run_batches moduleId formattedTopic (batch # rest) w =
     (case import_batch_module moduleId formattedTopic batch (query_BEGIN w) of
        (Threw, w1) \<Rightarrow> (Threw, w1)
      | (Returned _, w1) \<Rightarrow> run_batches moduleId formattedTopic rest (query_COMMIT w1))"

declare chunks.simps [simp del]

text \<open>What the cleanup script leaves of a store that does not fail.\<close>

definition cleanup_result :: "world \<Rightarrow> world" where
  "cleanup_result w =
     w\<lparr>attempts := filter (\<lambda>a. a_question_id a \<notin> q_id ` set (filter is_invalid (questions w)))
          (filter (\<lambda>a. a_selected_option_id a \<notin>
               o_id ` set (filter (\<lambda>opt. o_question_id opt \<in> q_id ` set (filter is_invalid (questions w))) (options w)))
             (attempts w)),
       options := filter (\<lambda>opt. o_question_id opt \<notin> q_id ` set (filter is_invalid (questions w))) (options w),
       questions := filter (\<lambda>q. q_id q \<notin> q_id ` set (filter is_invalid (questions w))) (questions w)\<rparr>"

text \<open>
  A run leaves a partition untouched when the identifiers stay well formed and the
  partition keeps its question rows and its option rows.
\<close>

definition untouched :: "string \<Rightarrow> string \<Rightarrow> world \<Rightarrow> world \<Rightarrow> bool" where
  "untouched moduleId topic w w' =
     (wf_store w'
      \<and> partition_questions moduleId topic w' = partition_questions moduleId topic w
      \<and> partition_options moduleId topic w' = partition_options moduleId topic w)"

section \<open>Properties\<close>

subsection \<open>The loops\<close>

lemma bind_io_simps:
  "bind_io (Returned a, w) f = f a w"
  "bind_io (Threw, w) f = (Threw, w)"
  by (simp_all add: bind_io_def)

lemma slice_step:
  "i < length qs \<Longrightarrow> 0 < bs \<Longrightarrow> slice i (min (i + bs) (length qs)) qs = take bs (drop i qs)"
  by (simp add: slice_def min_def)

lemma import_batch_append:
  "import_batch m t (xs @ ys) st = import_batch m t ys (import_batch m t xs st)"
  by (simp add: import_batch_def)

lemma batch_loop_eq:
  "0 < bs \<Longrightarrow> batch_loop bs m t qs i st = Some (import_batch m t (drop i qs) st)"
proof (induction "length qs - i" arbitrary: i st rule: less_induct)
  case less
  show ?case
  proof (cases "i < length qs")
    case True
    have "length qs - (i + bs) < length qs - i" using True less.prems by arith
    from less.hyps [OF this less.prems]
    have step: "batch_loop bs m t qs (i + bs) (import_batch m t (take bs (drop i qs)) st)
        = Some (import_batch m t (drop (i + bs) qs) (import_batch m t (take bs (drop i qs)) st))" .
    have "drop (i + bs) qs = drop bs (drop i qs)"
      by (simp add: add.commute)
    then have "drop i qs = take bs (drop i qs) @ drop (i + bs) qs"
      by (simp only: append_take_drop_id)
    then have "import_batch m t (drop i qs) st
        = import_batch m t (drop (i + bs) qs) (import_batch m t (take bs (drop i qs)) st)"
      by (metis import_batch_append)
    with step show ?thesis
      using True less.prems
      by (subst batch_loop.simps) (simp add: slice_step)
  next
    case False
    then show ?thesis by (subst batch_loop.simps) (simp add: import_batch_def)
  qed
qed

subsection \<open>Runs on a store that does not fail\<close>

lemma raises_healthy: "faults w = [] \<Longrightarrow> \<not> raises w"
  by (simp add: raises_def)

lemma advance_healthy: "faults w = [] \<Longrightarrow> advance w = w"
  by (cases w) (simp add: advance_def)

lemma insert_option_healthy:
  "faults w = [] \<Longrightarrow>
   insert_option qid x b w =
     (Returned (), w\<lparr>options := options w @ [\<lparr>o_id = option_seq w, o_question_id = qid, o_text = x, o_is_correct = b\<rparr>],
                    option_seq := Suc (option_seq w)\<rparr>)"
  by (simp add: insert_option_def raises_healthy advance_healthy)

lemma insert_options_healthy:
  "faults w = [] \<Longrightarrow>
   insert_options qid xs ci j w =
     (Returned (), w\<lparr>options := options w @ option_rows qid xs ci j (option_seq w),
                    option_seq := option_seq w + length xs\<rparr>)"
proof (induction xs arbitrary: j w)
  case Nil
  then show ?case by (cases w) simp
next
  case (Cons x xs)
  let ?w1 = "w\<lparr>options := options w @ [\<lparr>o_id = option_seq w, o_question_id = qid, o_text = x, o_is_correct = (ci = Some (int j))\<rparr>],
                option_seq := Suc (option_seq w)\<rparr>"
  have f1: "faults ?w1 = []" using Cons.prems by simp
  show ?case
    using Cons.prems
    by (simp add: insert_option_healthy bind_io_simps Cons.IH [OF f1])
qed

lemma insert_question_healthy:
  "faults w = [] \<Longrightarrow>
   insert_question m t x d s e w =
     (Returned (question_seq w),
      w\<lparr>questions := questions w @
           [\<lparr>q_id = question_seq w, q_module_id = m, q_topic = t, q_text = x,
             q_difficulty = d, q_slide_reference = s, q_explanation = e\<rparr>],
        question_seq := Suc (question_seq w)\<rparr>)"
  by (simp add: insert_question_def raises_healthy advance_healthy)

lemma import_item_healthy:
  "faults w = [] \<Longrightarrow>
   import_item m t item (n, w) =
     (if passes_validation item then (Suc n, seed_item m t item w)
      else (n, log_event Warn_invalid w))"
  by (simp add: passes_validation_def insert_question_healthy insert_options_healthy
      bind_io_simps seed_item_def)

lemma faults_seed_item [simp]: "faults (seed_item m t item w) = faults w"
  by (simp add: seed_item_def)

lemma faults_log_event [simp]: "faults (log_event e w) = faults w"
  by (simp add: log_event_def)

lemma faults_skip_or_seed [simp]: "faults (skip_or_seed m t item w) = faults w"
  by (simp add: skip_or_seed_def)

lemma seed_all_simps [simp]:
  "seed_all m t [] w = w"
  "seed_all m t (item # qs) w = seed_all m t qs (skip_or_seed m t item w)"
  by (simp_all add: seed_all_def)

lemma seed_all_append: "seed_all m t (xs @ ys) w = seed_all m t ys (seed_all m t xs w)"
  by (simp add: seed_all_def)

lemma faults_seed_all [simp]: "faults (seed_all m t qs w) = faults w"
  by (induction qs arbitrary: w) simp_all

lemma import_batch_healthy:
  "faults w = [] \<Longrightarrow>
   import_batch m t qs (n, w) = (n + length (filter passes_validation qs), seed_all m t qs w)"
proof (induction qs arbitrary: n w)
  case Nil
  then show ?case by (simp add: import_batch_def)
next
  case (Cons item qs)
  have step: "import_batch m t (item # qs) (n, w) = import_batch m t qs (import_item m t item (n, w))"
    by (simp add: import_batch_def)
  show ?case
  proof (cases "passes_validation item")
    case True
    have "faults (seed_item m t item w) = []" using Cons.prems by simp
    from Cons.IH [OF this] show ?thesis
      using True Cons.prems by (simp add: step import_item_healthy skip_or_seed_def del: import_item.simps)
  next
    case False
    have "faults (log_event Warn_invalid w) = []" using Cons.prems by simp
    from Cons.IH [OF this] show ?thesis
      using False Cons.prems by (simp add: step import_item_healthy skip_or_seed_def del: import_item.simps)
  qed
qed

lemma delete_options_healthy:
  "faults w = [] \<Longrightarrow>
   delete_options P w = (Returned (), w\<lparr>options := filter (\<lambda>opt. \<not> P opt) (options w)\<rparr>)"
  by (simp add: delete_options_def raises_healthy advance_healthy)

lemma delete_questions_healthy:
  "faults w = [] \<Longrightarrow>
   delete_questions P w = (Returned (), w\<lparr>questions := filter (\<lambda>q. \<not> P q) (questions w)\<rparr>)"
  by (simp add: delete_questions_def raises_healthy advance_healthy)

lemma delete_attempts_healthy:
  "faults w = [] \<Longrightarrow>
   delete_attempts P w = (Returned (), w\<lparr>attempts := filter (\<lambda>a. \<not> P a) (attempts w)\<rparr>)"
  by (simp add: delete_attempts_def raises_healthy advance_healthy)

lemma select_questions_healthy:
  "faults w = [] \<Longrightarrow> select_questions P w = (Returned (filter P (questions w)), w)"
  by (simp add: select_questions_def raises_healthy advance_healthy)

lemma select_options_healthy:
  "faults w = [] \<Longrightarrow> select_options P w = (Returned (filter P (options w)), w)"
  by (simp add: select_options_def raises_healthy advance_healthy)

lemma delete_options_of_healthy:
  "faults w = [] \<Longrightarrow>
   delete_options_of qs w =
     (Returned (), w\<lparr>options := filter (\<lambda>opt. o_question_id opt \<notin> q_id ` set qs) (options w)\<rparr>)"
proof (induction qs arbitrary: w)
  case Nil
  then show ?case by (cases w) simp
next
  case (Cons q qs)
  let ?w1 = "w\<lparr>options := filter (\<lambda>opt. \<not> o_question_id opt = q_id q) (options w)\<rparr>"
  have f1: "faults ?w1 = []" using Cons.prems by simp
  have "filter (\<lambda>opt. o_question_id opt \<notin> q_id ` set qs) (filter (\<lambda>opt. \<not> o_question_id opt = q_id q) (options w))
      = filter (\<lambda>opt. o_question_id opt \<notin> q_id ` set (q # qs)) (options w)"
    by (auto intro: filter_cong)
  then show ?case
    using Cons.prems
    by (simp add: delete_options_healthy bind_io_simps Cons.IH [OF f1])
qed

lemma deleteExistingQuestions_healthy:
  "faults w = [] \<Longrightarrow>
   deleteExistingQuestions m t w =
     (Returned (length (partition_questions m t w)), clear_partition m t w)"
proof (cases "partition_questions m t w = []")
  case True
  assume h: "faults w = []"
  from True have "\<forall>q\<in>set (questions w). \<not> in_partition m t q"
    by (simp add: partition_questions_def filter_empty_conv)
  then have "filter (\<lambda>q. \<not> in_partition m t q) (questions w) = questions w"
    by (simp add: filter_id_conv)
  with True have "clear_partition m t w = w"
    by (cases w) (simp add: clear_partition_def)
  with True h show ?thesis
    by (simp add: deleteExistingQuestions_def select_questions_healthy bind_io_simps
        partition_questions_def)
next
  case False
  assume h: "faults w = []"
  let ?sel = "filter (in_partition m t) (questions w)"
  let ?w2 = "w\<lparr>options := filter (\<lambda>opt. o_question_id opt \<notin> q_id ` set ?sel) (options w)\<rparr>"
  have f2: "faults ?w2 = []" using h by simp
  have "deleteExistingQuestions m t w =
      bind_io (delete_options_of ?sel w)
        (\<lambda>_ w2. bind_io (delete_questions (in_partition m t) w2)
           (\<lambda>_ w3. (Returned (length ?sel), w3)))"
    using False h
    by (simp add: deleteExistingQuestions_def select_questions_healthy bind_io_simps
        partition_questions_def)
  also have "\<dots> = bind_io (delete_questions (in_partition m t) ?w2)
           (\<lambda>_ w3. (Returned (length ?sel), w3))"
    using h by (simp only: delete_options_of_healthy bind_io_simps)
  also have "\<dots> = (Returned (length ?sel), ?w2\<lparr>questions := filter (\<lambda>q. \<not> in_partition m t q) (questions ?w2)\<rparr>)"
    by (simp only: delete_questions_healthy [OF f2] bind_io_simps)
  finally show ?thesis
    by (simp add: clear_partition_def partition_questions_def del: set_filter)
qed

lemma faults_clear_partition [simp]: "faults (clear_partition m t w) = faults w"
  by (simp add: clear_partition_def)

lemma batch_loop_eq0:
  "0 < bs \<Longrightarrow> batch_loop bs m t qs 0 st = Some (import_batch m t qs st)"
  by (simp add: batch_loop_eq)

lemma processModule_healthy:
  "faults w = [] \<Longrightarrow> qs \<noteq> [] \<Longrightarrow>
   processModule m t qs w = Some (Returned (), seed_all m t qs (clear_partition m t w))"
  by (simp add: processModule_def deleteExistingQuestions_healthy importQuestions_def
      importQuestions_sized_def batch_loop_eq0 import_batch_healthy)

subsection \<open>The content of a partition after seeding\<close>

lemma option_rows_owner:
  "opt \<in> set (option_rows qid xs ci j k) \<Longrightarrow> o_question_id opt = qid"
  by (induction xs arbitrary: j k) auto

lemma filter_option_rows:
  "filter (\<lambda>opt. o_question_id opt = q) (option_rows qid xs ci j k) =
     (if q = qid then option_rows qid xs ci j k else [])"
  by (induction xs arbitrary: j k) auto

lemma option_rows_content:
  "map (\<lambda>opt. (o_text opt, o_is_correct opt)) (option_rows qid xs ci j k) =
     map (\<lambda>i. (xs ! i, ci = Some (int (j + i)))) [0..<length xs]"
proof (induction xs arbitrary: j k)
  case Nil
  then show ?case by simp
next
  case (Cons x xs)
  have "[0..<length (x # xs)] = 0 # map Suc [0..<length xs]"
    by (simp add: upt_conv_Cons map_Suc_upt del: upt_Suc)
  then show ?case
    by (simp add: Cons.IH comp_def add.commute add.left_commute del: upt_Suc)
qed

lemma option_rows_marked:
  "map (\<lambda>opt. (o_text opt, o_is_correct opt)) (option_rows qid xs ci 0 k) = marked_options xs ci"
  by (simp add: option_rows_content marked_options_def)

lemma length_option_rows [simp]: "length (option_rows qid xs ci j k) = length xs"
  by (induction xs arbitrary: j k) auto

lemma options_of_fresh:
  "wf_store w \<Longrightarrow> options_of w (question_seq w) = []"
  by (auto simp: wf_store_def options_of_def filter_empty_conv)

lemma options_of_seed_item:
  "options_of (seed_item m t item w) q =
     options_of w q @
       (if q = question_seq w
        then option_rows (question_seq w) (the (c_options item)) (c_correctIndex item) 0 (option_seq w)
        else [])"
  by (simp add: options_of_def seed_item_def filter_option_rows)

lemma partition_questions_seed_item:
  "partition_questions m2 t2 (seed_item m t item w) =
     partition_questions m2 t2 w @
       (if m2 = m \<and> t2 = t
        then [\<lparr>q_id = question_seq w, q_module_id = m, q_topic = Some t,
               q_text = the (c_question item), q_difficulty = 2,
               q_slide_reference = or_null (c_slideLink item), q_explanation = None\<rparr>]
        else [])"
  by (auto simp: partition_questions_def seed_item_def in_partition_def)

lemma question_content_old:
  "q_id q \<noteq> question_seq w \<Longrightarrow> question_content (seed_item m t item w) q = question_content w q"
  by (simp add: question_content_def options_of_seed_item)

lemma partition_content_seed_item:
  assumes "wf_store w"
  shows "partition_content m t (seed_item m t item w) = partition_content m t w @ [expected_content item]"
proof -
  have old: "map (question_content (seed_item m t item w)) (partition_questions m t w)
      = map (question_content w) (partition_questions m t w)"
  proof (rule map_cong [OF refl])
    fix q assume "q \<in> set (partition_questions m t w)"
    then have "q \<in> set (questions w)" by (simp add: partition_questions_def)
    with assms have "q_id q < question_seq w" by (simp add: wf_store_def)
    then show "question_content (seed_item m t item w) q = question_content w q"
      by (simp add: question_content_old)
  qed
  have new: "question_content (seed_item m t item w)
       \<lparr>q_id = question_seq w, q_module_id = m, q_topic = Some t,
         q_text = the (c_question item), q_difficulty = 2,
         q_slide_reference = or_null (c_slideLink item), q_explanation = None\<rparr>
      = expected_content item"
    using assms
    by (simp add: question_content_def options_of_seed_item options_of_fresh
        option_rows_marked expected_content_def)
  show ?thesis
    by (simp add: partition_content_def partition_questions_seed_item old new)
qed

lemma partition_content_seed_item_other:
  assumes "wf_store w" and "(m2, t2) \<noteq> (m, t)"
  shows "partition_content m2 t2 (seed_item m t item w) = partition_content m2 t2 w"
proof -
  have "map (question_content (seed_item m t item w)) (partition_questions m2 t2 w)
      = map (question_content w) (partition_questions m2 t2 w)"
  proof (rule map_cong [OF refl])
    fix q assume "q \<in> set (partition_questions m2 t2 w)"
    then have "q \<in> set (questions w)" by (simp add: partition_questions_def)
    with assms have "q_id q < question_seq w" by (simp add: wf_store_def)
    then show "question_content (seed_item m t item w) q = question_content w q"
      by (simp add: question_content_old)
  qed
  with assms(2) show ?thesis
    by (auto simp: partition_content_def partition_questions_seed_item)
qed

lemma wf_store_seed_item:
  assumes "wf_store w"
  shows "wf_store (seed_item m t item w)"
proof -
  have "question_seq w \<notin> q_id ` set (questions w)"
    using assms by (auto simp: wf_store_def)
  with assms show ?thesis
    by (auto simp: wf_store_def seed_item_def less_Suc_eq dest: option_rows_owner)
qed

lemma wf_store_log_event [simp]: "wf_store (log_event e w) = wf_store w"
  by (simp add: wf_store_def log_event_def)

lemma partition_content_log_event [simp]:
  "partition_content m t (log_event e w) = partition_content m t w"
  by (simp add: partition_content_def partition_questions_def question_content_def
      options_of_def log_event_def)

lemma wf_store_seed_all: "wf_store w \<Longrightarrow> wf_store (seed_all m t qs w)"
  by (induction qs arbitrary: w) (simp_all add: skip_or_seed_def wf_store_seed_item)

lemma partition_content_seed_all:
  "wf_store w \<Longrightarrow>
   partition_content m t (seed_all m t qs w) =
     partition_content m t w @ map expected_content (filter passes_validation qs)"
proof (induction qs arbitrary: w)
  case Nil
  then show ?case by simp
next
  case (Cons item qs)
  have "wf_store (skip_or_seed m t item w)"
    using Cons.prems by (simp add: skip_or_seed_def wf_store_seed_item)
  from Cons.IH [OF this] show ?case
    using Cons.prems by (simp add: skip_or_seed_def partition_content_seed_item)
qed

lemma partition_content_seed_all_other:
  "wf_store w \<Longrightarrow> (m2, t2) \<noteq> (m, t) \<Longrightarrow>
   partition_content m2 t2 (seed_all m t qs w) = partition_content m2 t2 w"
proof (induction qs arbitrary: w)
  case Nil
  then show ?case by simp
next
  case (Cons item qs)
  have "wf_store (skip_or_seed m t item w)"
    using Cons.prems by (simp add: skip_or_seed_def wf_store_seed_item)
  from Cons.IH [OF this Cons.prems(2)] show ?case
    using Cons.prems by (simp add: skip_or_seed_def partition_content_seed_item_other)
qed

lemma console_seed_item [simp]: "console (seed_item m t item w) = console w"
  by (simp add: seed_item_def)

lemma console_seed_all:
  "console (seed_all m t qs w) =
     console w @ replicate (length (filter (\<lambda>c. \<not> passes_validation c) qs)) Warn_invalid"
proof (induction qs arbitrary: w)
  case Nil
  then show ?case by simp
next
  case (Cons item qs)
  show ?case
    by (simp add: Cons.IH skip_or_seed_def log_event_def replicate_append_same)
qed

lemma wf_store_clear_partition: "wf_store w \<Longrightarrow> wf_store (clear_partition m t w)"
  by (auto simp: wf_store_def clear_partition_def distinct_map_filter)

lemma partition_content_clear_partition [simp]:
  "partition_content m t (clear_partition m t w) = []"
  by (simp add: partition_content_def partition_questions_def clear_partition_def)

lemma console_clear_partition [simp]: "console (clear_partition m t w) = console w"
  by (simp add: clear_partition_def)

subsection \<open>Seeding a partition\<close>

lemma valid_record_passes: "valid_record item \<Longrightarrow> passes_validation item"
  by (auto simp: valid_record_def passes_validation_def truthy_def split: option.splits)

lemma filter_all_valid:
  "\<forall>item\<in>set qs. valid_record item \<Longrightarrow> filter passes_validation qs = qs"
  by (simp add: filter_id_conv valid_record_passes)

lemma marked_options_texts: "map fst (marked_options opts ci) = opts"
  by (simp add: marked_options_def comp_def map_nth)

lemma marked_options_flags:
  "0 \<le> ci \<Longrightarrow>
   map snd (marked_options opts (Some ci)) = (replicate (length opts) False)[nat ci := True]"
proof (rule nth_equalityI)
  show "length (map snd (marked_options opts (Some ci))) = length ((replicate (length opts) False)[nat ci := True])"
    by (simp add: marked_options_def)
next
  fix i assume "i < length (map snd (marked_options opts (Some ci)))"
  then have i: "i < length opts" by (simp add: marked_options_def)
  assume "0 \<le> ci"
  then have "(ci = int i) = (i = nat ci)" by auto
  with i show "map snd (marked_options opts (Some ci)) ! i = (replicate (length opts) False)[nat ci := True] ! i"
    by (cases "i = nat ci") (simp_all add: marked_options_def nth_list_update)
qed

lemma length_partition_content [simp]:
  "length (partition_content m t w) = length (partition_questions m t w)"
  by (simp add: partition_content_def)

text \<open>
  Claim C1, as the code has it. \<open>processModule\<close> leaves the store alone when the list
  of records is empty, so the claim is stated for a list that is not empty. On a store that
  does not fail and whose identifiers are well formed, and for records that are all valid,
  the partition then holds as many questions as there are records; their content is the
  expected content of the records, in order; and the options of each record are its option
  texts in order, flagged false everywhere but at the correct index.
\<close>

theorem processModule_seeds_partition:
  assumes "faults w = []" and "wf_store w" and "qs \<noteq> []"
    and "\<forall>item\<in>set qs. valid_record item"
  shows "\<exists>w'. processModule m t qs w = Some (Returned (), w')
           \<and> length (partition_questions m t w') = length qs
           \<and> partition_content m t w' = map expected_content qs
           \<and> (\<forall>item\<in>set qs.
                 map fst (marked_options (the (c_options item)) (c_correctIndex item)) = the (c_options item)
                 \<and> nat (the (c_correctIndex item)) < length (the (c_options item))
                 \<and> map snd (marked_options (the (c_options item)) (c_correctIndex item))
                     = (replicate (length (the (c_options item))) False)[nat (the (c_correctIndex item)) := True])"
proof -
  let ?w' = "seed_all m t qs (clear_partition m t w)"
  have run: "processModule m t qs w = Some (Returned (), ?w')"
    using assms(1,3) by (rule processModule_healthy)
  have "wf_store (clear_partition m t w)"
    using assms(2) by (rule wf_store_clear_partition)
  then have content: "partition_content m t ?w' = map expected_content qs"
    using assms(4) by (simp add: partition_content_seed_all filter_all_valid)
  then have "length (partition_content m t ?w') = length qs" by simp
  then have size: "length (partition_questions m t ?w') = length qs" by simp
  have flags: "\<forall>item\<in>set qs.
      map fst (marked_options (the (c_options item)) (c_correctIndex item)) = the (c_options item)
      \<and> nat (the (c_correctIndex item)) < length (the (c_options item))
      \<and> map snd (marked_options (the (c_options item)) (c_correctIndex item))
          = (replicate (length (the (c_options item))) False)[nat (the (c_correctIndex item)) := True]"
  proof
    fix item assume "item \<in> set qs"
    with assms(4) have v: "valid_record item" by simp
    then obtain qtext opts ci where f: "c_question item = Some qtext" "c_options item = Some opts"
        "c_correctIndex item = Some ci" "0 \<le> ci" "ci < int (length opts)"
      by (auto simp: valid_record_def split: option.splits)
    then show "map fst (marked_options (the (c_options item)) (c_correctIndex item)) = the (c_options item)
      \<and> nat (the (c_correctIndex item)) < length (the (c_options item))
      \<and> map snd (marked_options (the (c_options item)) (c_correctIndex item))
          = (replicate (length (the (c_options item))) False)[nat (the (c_correctIndex item)) := True]"
      by (simp add: marked_options_texts marked_options_flags)
  qed
  from run size content flags show ?thesis by blast
qed

lemma example_store_healthy: "faults example_store = []"
  by (simp add: example_store_def)

lemma example_store_wf: "wf_store example_store"
  by (simp add: example_store_def wf_store_def)

text \<open>
  The example of the specification: three valid records, the first with options A, B, C and
  correct index 1, give three questions and nine options, B the only correct one of the
  first question.
\<close>

theorem processModule_seeds_partition_witness:
  "\<exists>w'. processModule ''focs'' ''FOCS2'' [record_B, record_A, record_C] example_store = Some (Returned (), w')
      \<and> length (partition_questions ''focs'' ''FOCS2'' w') = 3
      \<and> partition_content ''focs'' ''FOCS2'' w' =
          [(''Q1'', 2, None, None, [(''A'', False), (''B'', True), (''C'', False)]),
           (''Q2'', 2, Some ''Lecture01_FOCS.pdf'', None, [(''D'', True), (''E'', False), (''F'', False)]),
           (''Q3'', 2, None, None, [(''G'', False), (''H'', False), (''I'', True)])]"
proof -
  have v: "\<forall>item\<in>set [record_B, record_A, record_C]. valid_record item"
    by (simp add: record_A_def record_B_def record_C_def valid_record_def)
  have ne: "[record_B, record_A, record_C] \<noteq> []" by simp
  from processModule_seeds_partition [OF example_store_healthy example_store_wf ne v, of "''focs''" "''FOCS2''"]
  obtain w' where
    "processModule ''focs'' ''FOCS2'' [record_B, record_A, record_C] example_store = Some (Returned (), w')"
    "length (partition_questions ''focs'' ''FOCS2'' w') = length [record_B, record_A, record_C]"
    "partition_content ''focs'' ''FOCS2'' w' = map expected_content [record_B, record_A, record_C]"
    by blast
  moreover have "map expected_content [record_B, record_A, record_C] =
          [(''Q1'', 2, None, None, [(''A'', False), (''B'', True), (''C'', False)]),
           (''Q2'', 2, Some ''Lecture01_FOCS.pdf'', None, [(''D'', True), (''E'', False), (''F'', False)]),
           (''Q3'', 2, None, None, [(''G'', False), (''H'', False), (''I'', True)])]"
    by (simp add: expected_content_def record_A_def record_B_def record_C_def
        marked_options_def or_null_def truthy_def upt_rec)
  ultimately show ?thesis by simp
qed

text \<open>
  With an empty list the old question stays in the partition, although no record is valid.
\<close>

theorem processModule_empty_list_counterexample:
  "processModule ''focs'' ''FOCS2'' [] example_store
      = Some (Returned (), log_event Error_no_questions example_store)
   \<and> length (partition_questions ''focs'' ''FOCS2'' (log_event Error_no_questions example_store)) = 1
   \<and> length (filter valid_record ([] :: candidate list)) = 0
   \<and> faults example_store = [] \<and> wf_store example_store"
  by (simp add: processModule_def partition_questions_def in_partition_def log_event_def
      example_store_def wf_store_def)

subsection \<open>Running twice\<close>

lemma partition_questions_log_event [simp]:
  "partition_questions m t (log_event e w) = partition_questions m t w"
  by (simp add: partition_questions_def log_event_def)

text \<open>
  Claim C4. On a store that does not fail and whose identifiers are well formed, running
  \<open>processModule\<close> a second time with the same records leaves the partition with as
  many questions as the first run, with the same texts, columns, option texts and flags;
  only the generated identifiers differ. The restriction to a store that does not fail is
  needed: \<open>importQuestions\<close> catches and prints the error of a record (lines 172-174),
  so a run in which the store raises returns like any other, and the example after the
  theorem has two runs that both return and leave different contents.
\<close>

theorem processModule_idempotent:
  assumes "faults w = []" and "wf_store w"
  shows "\<exists>w1 w2. processModule m t qs w = Some (Returned (), w1)
           \<and> processModule m t qs w1 = Some (Returned (), w2)
           \<and> length (partition_questions m t w2) = length (partition_questions m t w1)
           \<and> partition_content m t w2 = partition_content m t w1"
proof (cases "qs = []")
  case True
  then show ?thesis
    by (simp add: processModule_def)
next
  case False
  let ?w1 = "seed_all m t qs (clear_partition m t w)"
  let ?w2 = "seed_all m t qs (clear_partition m t ?w1)"
  have r1: "processModule m t qs w = Some (Returned (), ?w1)"
    using assms(1) False by (rule processModule_healthy)
  have f1: "faults ?w1 = []" using assms(1) by simp
  have wf1: "wf_store ?w1"
    using assms(2) by (simp add: wf_store_seed_all wf_store_clear_partition)
  have r2: "processModule m t qs ?w1 = Some (Returned (), ?w2)"
    using f1 False by (rule processModule_healthy)
  have c1: "partition_content m t ?w1 = map expected_content (filter passes_validation qs)"
    using assms(2) by (simp add: partition_content_seed_all wf_store_clear_partition)
  have c2: "partition_content m t ?w2 = map expected_content (filter passes_validation qs)"
    using wf1 by (simp add: partition_content_seed_all wf_store_clear_partition)
  from c1 c2 have eq: "partition_content m t ?w2 = partition_content m t ?w1" by simp
  then have "length (partition_content m t ?w2) = length (partition_content m t ?w1)" by simp
  then have "length (partition_questions m t ?w2) = length (partition_questions m t ?w1)" by simp
  with r1 r2 eq show ?thesis by blast
qed

theorem processModule_idempotent_witness:
  "\<exists>w1 w2. processModule ''focs'' ''FOCS2'' [record_B, record_no_text] example_store = Some (Returned (), w1)
      \<and> processModule ''focs'' ''FOCS2'' [record_B, record_no_text] w1 = Some (Returned (), w2)
      \<and> length (partition_questions ''focs'' ''FOCS2'' w2) = length (partition_questions ''focs'' ''FOCS2'' w1)
      \<and> partition_content ''focs'' ''FOCS2'' w2 = partition_content ''focs'' ''FOCS2'' w1"
  using processModule_idempotent [OF example_store_healthy example_store_wf]
  by blast

text \<open>
  The store raises at its eleventh statement. The first run of \<open>processModule\<close> issues
  seven statements (the select, two deletes, the question and three options) and leaves
  the question of the record with its options. The second run deletes them and raises at
  the insert of the question: the error is caught and printed, the call returns, and the
  partition is empty.
\<close>

theorem processModule_twice_failing_counterexample:
  "processModule ''focs'' ''FOCS2'' [record_B] store_failing_in_second_run
      = Some (Returned (), store_after_first_run)
   \<and> processModule ''focs'' ''FOCS2'' [record_B] store_after_first_run
      = Some (Returned (), store_after_second_run)
   \<and> partition_content ''focs'' ''FOCS2'' store_after_first_run
      = [(''Q1'', 2, None, None, [(''A'', False), (''B'', True), (''C'', False)])]
   \<and> partition_content ''focs'' ''FOCS2'' store_after_second_run = []
   \<and> length (partition_questions ''focs'' ''FOCS2'' store_after_first_run) = 1
   \<and> length (partition_questions ''focs'' ''FOCS2'' store_after_second_run) = 0"
proof -
  have "processModule ''focs'' ''FOCS2'' [record_B] store_failing_in_second_run
      = Some (Returned (), store_after_first_run)"
    by (simp add: processModule_def deleteExistingQuestions_def select_questions_def
        delete_options_def delete_questions_def insert_question_def insert_option_def
        importQuestions_def importQuestions_sized_def batch_loop_eq import_batch_def bind_io_simps raises_def advance_def log_event_def
        truthy_def or_null_def in_partition_def
        record_B_def store_failing_in_second_run_def store_after_first_run_def example_store_def)
  moreover have "processModule ''focs'' ''FOCS2'' [record_B] store_after_first_run
      = Some (Returned (), store_after_second_run)"
    by (simp add: processModule_def deleteExistingQuestions_def select_questions_def
        delete_options_def delete_questions_def insert_question_def insert_option_def
        importQuestions_def importQuestions_sized_def batch_loop_eq import_batch_def bind_io_simps raises_def advance_def log_event_def
        truthy_def or_null_def in_partition_def
        record_B_def store_after_first_run_def store_after_second_run_def)
  moreover have "partition_content ''focs'' ''FOCS2'' store_after_first_run
      = [(''Q1'', 2, None, None, [(''A'', False), (''B'', True), (''C'', False)])]
   \<and> partition_content ''focs'' ''FOCS2'' store_after_second_run = []
   \<and> length (partition_questions ''focs'' ''FOCS2'' store_after_first_run) = 1
   \<and> length (partition_questions ''focs'' ''FOCS2'' store_after_second_run) = 0"
    by (simp add: partition_content_def partition_questions_def question_content_def
        options_of_def in_partition_def store_after_first_run_def store_after_second_run_def)
  ultimately show ?thesis by simp
qed

subsection \<open>Records that fail the validation\<close>

text \<open>
  Claim C6, as the code has it. The validation of the scripts rejects a record whose
  question text is missing or empty, whose options are not an array, or whose correct index
  is undefined, and nothing else. A list with exactly one rejected record gives one
  question less than it has records, and one warning on the console; the other records are
  still inserted.
\<close>

theorem processModule_skips_rejected:
  assumes "faults w = []" and "wf_store w"
    and "length (filter (\<lambda>item. \<not> passes_validation item) qs) = 1"
  shows "\<exists>w'. processModule m t qs w = Some (Returned (), w')
           \<and> length (partition_questions m t w') = length qs - 1
           \<and> console w' = console w @ [Warn_invalid]"
proof -
  let ?w' = "seed_all m t qs (clear_partition m t w)"
  from assms(3) have ne: "qs \<noteq> []" by auto
  have run: "processModule m t qs w = Some (Returned (), ?w')"
    using assms(1) ne by (rule processModule_healthy)
  have "length (filter passes_validation qs) + length (filter (\<lambda>item. \<not> passes_validation item) qs) = length qs"
    by (rule sum_length_filter_compl)
  with assms(3) have n: "length (filter passes_validation qs) = length qs - 1" by simp
  have "partition_content m t ?w' = map expected_content (filter passes_validation qs)"
    using assms(2) by (simp add: partition_content_seed_all wf_store_clear_partition)
  then have "length (partition_content m t ?w') = length (filter passes_validation qs)" by simp
  with n have size: "length (partition_questions m t ?w') = length qs - 1" by simp
  have "console ?w' = console w @ [Warn_invalid]"
    using assms(3) by (simp add: console_seed_all)
  with run size show ?thesis by blast
qed

theorem processModule_skips_rejected_witness:
  "\<exists>w'. processModule ''focs'' ''FOCS2'' [record_B, record_no_text, record_A] example_store = Some (Returned (), w')
      \<and> length (partition_questions ''focs'' ''FOCS2'' w') = 2
      \<and> console w' = [Warn_invalid]"
proof -
  have "length (filter (\<lambda>item. \<not> passes_validation item) [record_B, record_no_text, record_A]) = 1"
    by (simp add: passes_validation_def truthy_def record_A_def record_B_def record_no_text_def)
  from processModule_skips_rejected [OF example_store_healthy example_store_wf this, of "''focs''" "''FOCS2''"]
  obtain w' where
    "processModule ''focs'' ''FOCS2'' [record_B, record_no_text, record_A] example_store = Some (Returned (), w')"
    "length (partition_questions ''focs'' ''FOCS2'' w') = length [record_B, record_no_text, record_A] - 1"
    "console w' = console example_store @ [Warn_invalid]"
    by blast
  moreover have "console example_store = []" by (simp add: example_store_def)
  ultimately show ?thesis by simp
qed

text \<open>
  A record with an empty array of options passes the validation: both records of the list
  become questions and nothing is reported.
\<close>

theorem empty_options_not_skipped_counterexample:
  "processModule ''focs'' ''FOCS2'' [record_B, record_no_options] example_store
      = Some (Returned (), store_after_no_options)
   \<and> c_options record_no_options = Some []
   \<and> length [record_B, record_no_options] = 2
   \<and> length (partition_questions ''focs'' ''FOCS2'' store_after_no_options) = 2
   \<and> console store_after_no_options = []"
  by (simp add: processModule_healthy example_store_healthy)
     (simp add: seed_all_def skip_or_seed_def passes_validation_def truthy_def seed_item_def
      clear_partition_def partition_questions_def in_partition_def or_null_def
      record_B_def record_no_options_def example_store_def store_after_no_options_def)

subsection \<open>A correct index past the options\<close>

text \<open>
  Claim C9. A record with question text, an array of options and a correct index at or
  past the length of the array is not skipped: the counter goes up by one, no warning is
  printed, the question is stored, and its options are the texts of the array in order,
  none of them flagged correct.
\<close>

theorem import_item_index_out_of_range:
  assumes "faults w = []"
    and "c_question item = Some qtext" and "qtext \<noteq> []"
    and "c_options item = Some opts"
    and "c_correctIndex item = Some ci" and "int (length opts) \<le> ci"
  shows "\<exists>w' rows. import_item m t item (imported, w) = (imported + 1, w')
           \<and> console w' = console w
           \<and> questions w' = questions w @
                [\<lparr>q_id = question_seq w, q_module_id = m, q_topic = Some t, q_text = qtext,
                  q_difficulty = 2, q_slide_reference = or_null (c_slideLink item),
                  q_explanation = None\<rparr>]
           \<and> options w' = options w @ rows
           \<and> map o_text rows = opts
           \<and> (\<forall>opt\<in>set rows. o_question_id opt = question_seq w \<and> \<not> o_is_correct opt)"
proof -
  let ?rows = "option_rows (question_seq w) opts (Some ci) 0 (option_seq w)"
  have pass: "passes_validation item"
    using assms(2-5) by (simp add: passes_validation_def truthy_def)
  have run: "import_item m t item (imported, w) = (imported + 1, seed_item m t item w)"
    using assms(1) pass by (simp add: import_item_healthy del: import_item.simps)
  have view: "map (\<lambda>opt. (o_text opt, o_is_correct opt)) ?rows = marked_options opts (Some ci)"
    by (rule option_rows_marked)
  have "map o_text ?rows = map fst (map (\<lambda>opt. (o_text opt, o_is_correct opt)) ?rows)"
    by (simp add: comp_def)
  then have texts: "map o_text ?rows = opts"
    by (simp only: view marked_options_texts)
  have "map o_is_correct ?rows = map snd (map (\<lambda>opt. (o_text opt, o_is_correct opt)) ?rows)"
    by (simp add: comp_def)
  also have "\<dots> = map snd (marked_options opts (Some ci))" by (simp only: view)
  also have "\<dots> = map (\<lambda>j. False) [0..<length opts]"
    using assms(6) by (auto simp: marked_options_def)
  finally have "\<forall>b\<in>set (map o_is_correct ?rows). \<not> b" by auto
  then have flags: "\<forall>opt\<in>set ?rows. o_question_id opt = question_seq w \<and> \<not> o_is_correct opt"
    by (auto dest: option_rows_owner)
  have "console (seed_item m t item w) = console w" by simp
  moreover have "questions (seed_item m t item w) = questions w @
                [\<lparr>q_id = question_seq w, q_module_id = m, q_topic = Some t, q_text = qtext,
                  q_difficulty = 2, q_slide_reference = or_null (c_slideLink item),
                  q_explanation = None\<rparr>]"
    using assms(2) by (simp add: seed_item_def)
  moreover have "options (seed_item m t item w) = options w @ ?rows"
    using assms(4,5) by (simp add: seed_item_def)
  ultimately show ?thesis using run texts flags by blast
qed

theorem import_item_index_out_of_range_witness:
  "\<exists>w' rows. import_item ''focs'' ''FOCS2'' record_index_5 (0, example_store) = (0 + 1, w')
      \<and> console w' = console example_store
      \<and> questions w' = questions example_store @
           [\<lparr>q_id = question_seq example_store, q_module_id = ''focs'', q_topic = Some ''FOCS2'',
             q_text = ''Q5'', q_difficulty = 2, q_slide_reference = or_null (c_slideLink record_index_5),
             q_explanation = None\<rparr>]
      \<and> options w' = options example_store @ rows
      \<and> map o_text rows = [''A'', ''B'']
      \<and> (\<forall>opt\<in>set rows. o_question_id opt = question_seq example_store \<and> \<not> o_is_correct opt)"
proof -
  have a: "c_question record_index_5 = Some ''Q5''" "''Q5'' \<noteq> []"
    "c_options record_index_5 = Some [''A'', ''B'']"
    "c_correctIndex record_index_5 = Some 5" "int (length [''A'', ''B'']) \<le> 5"
    by (simp_all add: record_index_5_def)
  show ?thesis
    by (rule import_item_index_out_of_range [OF example_store_healthy a])
qed

subsection \<open>The difficulty of inserted questions\<close>

lemma level2_added_refl: "level2_added w w"
  by (simp add: level2_added_def)

lemma level2_added_trans: "level2_added w w1 \<Longrightarrow> level2_added w1 w2 \<Longrightarrow> level2_added w w2"
  by (auto simp: level2_added_def)

lemma level2_added_same: "questions w' = questions w \<Longrightarrow> level2_added w w'"
  by (simp add: level2_added_def)

lemma questions_advance [simp]: "questions (advance w) = questions w"
  by (simp add: advance_def)

lemma questions_log_event [simp]: "questions (log_event e w) = questions w"
  by (simp add: log_event_def)

lemma insert_option_questions:
  "insert_option qid x b w = (r, w') \<Longrightarrow> questions w' = questions w"
  by (auto simp: insert_option_def split: if_splits)

lemma insert_options_questions:
  "insert_options qid xs ci j w = (r, w') \<Longrightarrow> questions w' = questions w"
proof (induction xs arbitrary: j w)
  case Nil
  then show ?case by simp
next
  case (Cons x xs)
  obtain r1 w1 where s: "insert_option qid x (ci = Some (int j)) w = (r1, w1)"
    by (cases "insert_option qid x (ci = Some (int j)) w")
  then have q1: "questions w1 = questions w" by (rule insert_option_questions)
  show ?case
  proof (cases r1)
    case (Returned u)
    with Cons.prems s have "insert_options qid xs ci (Suc j) w1 = (r, w')"
      by (simp add: bind_io_simps)
    then have "questions w' = questions w1" by (rule Cons.IH)
    with q1 show ?thesis by simp
  next
    case Threw
    with Cons.prems s q1 show ?thesis by (simp add: bind_io_simps)
  qed
qed

lemma insert_question_level2:
  "insert_question m t x 2 s e w = (r, w') \<Longrightarrow> level2_added w w'"
  by (auto simp: insert_question_def level2_added_def split: if_splits)

lemma insert_row_level2:
  assumes "bind_io (insert_question m t x 2 s e w) (\<lambda>qid. insert_options qid opts ci 0) = (r, w')"
  shows "level2_added w w'"
proof -
  obtain r1 w1 where s1: "insert_question m t x 2 s e w = (r1, w1)"
    by (cases "insert_question m t x 2 s e w")
  then have l1: "level2_added w w1" by (rule insert_question_level2)
  show ?thesis
  proof (cases r1)
    case Threw
    with assms s1 have "w' = w1" by (simp add: bind_io_simps)
    with l1 show ?thesis by simp
  next
    case (Returned qid)
    with assms s1 have "insert_options qid opts ci 0 w1 = (r, w')" by (simp add: bind_io_simps)
    then have "questions w' = questions w1" by (rule insert_options_questions)
    then have "level2_added w1 w'" by (rule level2_added_same)
    with l1 show ?thesis by (rule level2_added_trans)
  qed
qed

lemma import_item_level2:
  assumes "import_item m t item (n, w) = (n', w')"
  shows "level2_added w w'"
proof (cases "\<not> truthy (c_question item) \<or> c_options item = None \<or> c_correctIndex item = None")
  case True
  with assms show ?thesis by (auto simp: level2_added_def)
next
  case False
  obtain r1 w1 where s1: "bind_io
        (insert_question m (Some t) (the (c_question item)) 2 (or_null (c_slideLink item)) None w)
        (\<lambda>questionId. insert_options questionId (the (c_options item)) (c_correctIndex item) 0) = (r1, w1)"
    by (cases "bind_io
        (insert_question m (Some t) (the (c_question item)) 2 (or_null (c_slideLink item)) None w)
        (\<lambda>questionId. insert_options questionId (the (c_options item)) (c_correctIndex item) 0)")
  then have l1: "level2_added w w1" by (rule insert_row_level2)
  from assms False s1 have "questions w' = questions w1"
    by (cases r1) auto
  then have "level2_added w1 w'" by (rule level2_added_same)
  with l1 show ?thesis by (rule level2_added_trans)
qed

lemma import_batch_level2:
  "import_batch m t qs (n, w) = (n', w') \<Longrightarrow> level2_added w w'"
proof (induction qs arbitrary: n w)
  case Nil
  then show ?case by (simp add: import_batch_def level2_added_refl)
next
  case (Cons item qs)
  obtain n1 w1 where s: "import_item m t item (n, w) = (n1, w1)"
    by (cases "import_item m t item (n, w)")
  with Cons.prems have "import_batch m t qs (n1, w1) = (n', w')"
    by (simp add: import_batch_def)
  then have "level2_added w1 w'" by (rule Cons.IH)
  with import_item_level2 [OF s] show ?case by (rule level2_added_trans)
qed

lemma importQuestions_total:
  "importQuestions m t qs w = Some (import_batch m t qs (0, w))"
  by (simp add: importQuestions_def importQuestions_sized_def batch_loop_eq)

lemma import_item_server_level2:
  assumes "import_item_server m item w = (r, w')"
  shows "level2_added w w'"
proof (cases "c_question item")
  case None
  with assms show ?thesis by (auto simp: import_item_server_def level2_added_def)
next
  case (Some qtext)
  let ?ins = "insert_question m (Some (topic_of_slideLink (c_slideLink item))) qtext 2
                  (Some (if truthy (c_slideLink item) then the (c_slideLink item) else [])) (Some []) w"
  obtain r1 w1 where s1: "?ins = (r1, w1)" by (cases ?ins)
  then have l1: "level2_added w w1" by (rule insert_question_level2)
  show ?thesis
  proof (cases r1)
    case Threw
    with assms Some s1 have "questions w' = questions w1"
      by (auto simp: import_item_server_def)
    then have "level2_added w1 w'" by (rule level2_added_same)
    with l1 show ?thesis by (rule level2_added_trans)
  next
    case (Returned qid)
    show ?thesis
    proof (cases "c_options item")
      case None
      with assms Some s1 Returned have "questions w' = questions w1"
        by (auto simp: import_item_server_def)
      then have "level2_added w1 w'" by (rule level2_added_same)
      with l1 show ?thesis by (rule level2_added_trans)
    next
      case opts: (Some opts)
      obtain r2 w2 where s2: "insert_options qid opts (c_correctIndex item) 0 w1 = (r2, w2)"
        by (cases "insert_options qid opts (c_correctIndex item) 0 w1")
      then have q2: "questions w2 = questions w1" by (rule insert_options_questions)
      from assms Some s1 Returned opts s2 have "questions w' = questions w2"
        by (cases r2) (auto simp: import_item_server_def)
      with q2 have "level2_added w1 w'" by (simp add: level2_added_same)
      with l1 show ?thesis by (rule level2_added_trans)
    qed
  qed
qed

lemma importQuestions_server_level2:
  "importQuestions_server m qs w = (r, w') \<Longrightarrow> level2_added w w'"
proof (induction qs arbitrary: w)
  case Nil
  then show ?case by (auto simp: level2_added_refl)
next
  case (Cons item qs)
  obtain r1 w1 where s: "import_item_server m item w = (r1, w1)"
    by (cases "import_item_server m item w")
  then have l1: "level2_added w w1" by (rule import_item_server_level2)
  show ?case
  proof (cases r1)
    case Threw
    with Cons.prems s have "w' = w1" by (simp add: bind_io_simps)
    with l1 show ?thesis by simp
  next
    case (Returned u)
    with Cons.prems s have "importQuestions_server m qs w1 = (r, w')" by (simp add: bind_io_simps)
    then have "level2_added w1 w'" by (rule Cons.IH)
    with l1 show ?thesis by (rule level2_added_trans)
  qed
qed

subsection \<open>The batches of scripts/import-module.js\<close>

lemma less_total_batches:
  "0 < bs \<Longrightarrow> less_js k (total_batches n bs) = (k * bs < n)"
proof -
  assume bs: "0 < bs"
  have "(k < (n + bs - 1) div bs) = (k * bs < n)"
  proof
    assume "k < (n + bs - 1) div bs"
    then have "Suc k \<le> (n + bs - 1) div bs" by simp
    then have "Suc k * bs \<le> n + bs - 1" using bs by (simp add: less_eq_div_iff_mult_less_eq)
    then show "k * bs < n" using bs by simp
  next
    assume "k * bs < n"
    then have "Suc k * bs \<le> n + bs - 1" using bs by simp
    then have "Suc k \<le> (n + bs - 1) div bs" using bs by (simp add: less_eq_div_iff_mult_less_eq)
    then show "k < (n + bs - 1) div bs" by simp
  qed
  with bs show ?thesis by (simp add: less_js_def total_batches_def)
qed

lemma module_batches_eq:
  "0 < bs \<Longrightarrow>
   module_batches bs m T qs k w = Some (run_batches m T (chunks bs (drop (k * bs) qs)) w)"
proof (induction "length qs - k * bs" arbitrary: k w rule: less_induct)
  case less
  show ?case
  proof (cases "k * bs < length qs")
    case True
    have sl: "slice (k * bs) (min (k * bs + bs) (length qs)) qs = take bs (drop (k * bs) qs)"
      using True less.prems by (rule slice_step)
    have ne: "drop (k * bs) qs \<noteq> []" using True by simp
    have ch: "chunks bs (drop (k * bs) qs) = take bs (drop (k * bs) qs) # chunks bs (drop (Suc k * bs) qs)"
      using ne less.prems by (subst chunks.simps) (simp add: add.commute)
    have dec: "length qs - Suc k * bs < length qs - k * bs" using True less.prems by simp
    obtain r1 w1 where b: "import_batch_module m T (take bs (drop (k * bs) qs)) (query_BEGIN w) = (r1, w1)"
      by (cases "import_batch_module m T (take bs (drop (k * bs) qs)) (query_BEGIN w)")
    show ?thesis
    proof (cases r1)
      case Threw
      with b True less.prems show ?thesis
        by (subst module_batches.simps) (simp add: less_total_batches sl ch)
    next
      case (Returned u)
      from less.hyps [OF dec less.prems]
      have "module_batches bs m T qs (Suc k) (query_COMMIT w1)
          = Some (run_batches m T (chunks bs (drop (Suc k * bs) qs)) (query_COMMIT w1))" .
      with b Returned True less.prems show ?thesis
        by (subst module_batches.simps) (simp add: less_total_batches sl ch)
    qed
  next
    case False
    then have "chunks bs (drop (k * bs) qs) = []" by (subst chunks.simps) simp
    with False less.prems show ?thesis
      by (subst module_batches.simps) (simp add: less_total_batches)
  qed
qed

lemma concat_chunks: "0 < n \<Longrightarrow> concat (chunks n xs) = xs"
proof (induction n xs rule: chunks.induct)
  case (1 n xs)
  show ?case
  proof (cases "xs = []")
    case True
    then show ?thesis by (subst chunks.simps) simp
  next
    case False
    with 1 show ?thesis by (subst chunks.simps) simp
  qed
qed

lemma tables_calm [simp]: "tables (calm w) = tables w"
  by (simp add: tables_def calm_def)

lemma calm_idem [simp]: "calm (calm w) = calm w"
  by (simp add: calm_def)

lemma calm_advance [simp]: "calm (advance w) = calm w"
  by (simp add: calm_def advance_def)

lemma calm_BEGIN [simp]: "calm (query_BEGIN w) = calm w"
  by (simp add: calm_def query_BEGIN_def)

lemma calm_COMMIT [simp]: "calm (query_COMMIT w) = calm w"
  by (simp add: calm_def query_COMMIT_def)

lemma seed_item_calm: "seed_item m t item (calm w) = calm (seed_item m t item w)"
  by (simp add: seed_item_def calm_def)

lemma log_event_calm: "log_event e (calm w) = calm (log_event e w)"
  by (simp add: log_event_def calm_def)

lemma skip_or_seed_calm: "skip_or_seed m t item (calm w) = calm (skip_or_seed m t item w)"
  by (simp add: skip_or_seed_def seed_item_calm log_event_calm)

lemma seed_all_calm: "seed_all m t qs (calm w) = calm (seed_all m t qs w)"
  by (induction qs arbitrary: w) (simp_all add: skip_or_seed_calm)

lemma clear_partition_calm: "clear_partition m t (calm w) = calm (clear_partition m t w)"
  by (simp add: clear_partition_def calm_def partition_questions_def)

lemma tables_seed_all_cong:
  "calm u = calm v \<Longrightarrow> tables (seed_all m t qs u) = tables (seed_all m t qs v)"
proof -
  assume "calm u = calm v"
  then have "calm (seed_all m t qs u) = calm (seed_all m t qs v)"
    by (simp add: seed_all_calm [symmetric])
  then have "tables (calm (seed_all m t qs u)) = tables (calm (seed_all m t qs v))" by simp
  then show ?thesis by simp
qed

text \<open>Statements keep the snapshot; a statement that returns did its work.\<close>

lemma insert_option_snapshot:
  "insert_option qid x b w = (r, w') \<Longrightarrow> snapshot w' = snapshot w"
  by (auto simp: insert_option_def advance_def split: if_splits)

lemma insert_options_snapshot:
  "insert_options qid xs ci j w = (r, w') \<Longrightarrow> snapshot w' = snapshot w"
proof (induction xs arbitrary: j w)
  case Nil
  then show ?case by simp
next
  case (Cons x xs)
  obtain r1 w1 where s: "insert_option qid x (ci = Some (int j)) w = (r1, w1)"
    by (cases "insert_option qid x (ci = Some (int j)) w")
  then have q1: "snapshot w1 = snapshot w" by (rule insert_option_snapshot)
  show ?case
  proof (cases r1)
    case (Returned u)
    with Cons.prems s have "insert_options qid xs ci (Suc j) w1 = (r, w')"
      by (simp add: bind_io_simps)
    then have "snapshot w' = snapshot w1" by (rule Cons.IH)
    with q1 show ?thesis by simp
  next
    case Threw
    with Cons.prems s q1 show ?thesis by (simp add: bind_io_simps)
  qed
qed

lemma insert_question_snapshot:
  "insert_question m t x d s e w = (r, w') \<Longrightarrow> snapshot w' = snapshot w"
  by (auto simp: insert_question_def advance_def split: if_splits)

lemma insert_option_returned:
  "insert_option qid x b w = (Returned u, w') \<Longrightarrow>
   calm w' = calm (w\<lparr>options := options w @ [\<lparr>o_id = option_seq w, o_question_id = qid, o_text = x, o_is_correct = b\<rparr>],
                      option_seq := Suc (option_seq w)\<rparr>)"
  by (auto simp: insert_option_def advance_def calm_def split: if_splits)

lemma calm_fields:
  "calm u = calm v \<Longrightarrow> options u = options v \<and> option_seq u = option_seq v
     \<and> questions u = questions v \<and> question_seq u = question_seq v
     \<and> attempts u = attempts v \<and> console u = console v"
proof -
  assume h: "calm u = calm v"
  have "options u = options (calm u)" "option_seq u = option_seq (calm u)"
    "questions u = questions (calm u)" "question_seq u = question_seq (calm u)"
    "attempts u = attempts (calm u)" "console u = console (calm u)"
    by (simp_all add: calm_def)
  moreover have "options v = options (calm v)" "option_seq v = option_seq (calm v)"
    "questions v = questions (calm v)" "question_seq v = question_seq (calm v)"
    "attempts v = attempts (calm v)" "console v = console (calm v)"
    by (simp_all add: calm_def)
  ultimately show ?thesis using h by simp
qed

lemma calm_eqI:
  "options u = options v \<Longrightarrow> option_seq u = option_seq v \<Longrightarrow> questions u = questions v \<Longrightarrow>
   question_seq u = question_seq v \<Longrightarrow> attempts u = attempts v \<Longrightarrow> console u = console v \<Longrightarrow>
   calm u = calm v"
  by (cases u, cases v) (simp add: calm_def)

lemma insert_options_returned:
  "insert_options qid xs ci j w = (Returned u, w') \<Longrightarrow>
   calm w' = calm (w\<lparr>options := options w @ option_rows qid xs ci j (option_seq w),
                      option_seq := option_seq w + length xs\<rparr>)"
proof (induction xs arbitrary: j w)
  case Nil
  then show ?case by (cases w) (simp add: calm_def)
next
  case (Cons x xs)
  obtain r1 w1 where s: "insert_option qid x (ci = Some (int j)) w = (r1, w1)"
    by (cases "insert_option qid x (ci = Some (int j)) w")
  show ?case
  proof (cases r1)
    case Threw
    with Cons.prems s show ?thesis by (simp add: bind_io_simps)
  next
    case (Returned v)
    with s have c1: "calm w1 = calm (w\<lparr>options := options w @ [\<lparr>o_id = option_seq w, o_question_id = qid, o_text = x, o_is_correct = (ci = Some (int j))\<rparr>],
                      option_seq := Suc (option_seq w)\<rparr>)"
      by (simp add: insert_option_returned)
    from Cons.prems s Returned have "insert_options qid xs ci (Suc j) w1 = (Returned u, w')"
      by (simp add: bind_io_simps)
    then have c2: "calm w' = calm (w1\<lparr>options := options w1 @ option_rows qid xs ci (Suc j) (option_seq w1),
                      option_seq := option_seq w1 + length xs\<rparr>)"
      by (rule Cons.IH)
    from calm_fields [OF c1] calm_fields [OF c2] show ?thesis
      by (intro calm_eqI) simp_all
  qed
qed

lemma insert_question_returned:
  "insert_question m t x d s e w = (Returned qid, w') \<Longrightarrow>
   qid = question_seq w \<and>
   calm w' = calm (w\<lparr>questions := questions w @
           [\<lparr>q_id = question_seq w, q_module_id = m, q_topic = t, q_text = x,
             q_difficulty = d, q_slide_reference = s, q_explanation = e\<rparr>],
        question_seq := Suc (question_seq w)\<rparr>)"
  by (auto simp: insert_question_def advance_def calm_def split: if_splits)

lemma insert_row_returned:
  assumes "bind_io (insert_question m (Some t) (the (c_question item)) 2 (or_null (c_slideLink item)) None w)
             (\<lambda>qid. insert_options qid (the (c_options item)) (c_correctIndex item) 0) = (Returned u, w')"
  shows "calm w' = calm (seed_item m t item w)"
proof -
  let ?ins = "insert_question m (Some t) (the (c_question item)) 2 (or_null (c_slideLink item)) None w"
  obtain r1 w1 where s1: "?ins = (r1, w1)" by (cases ?ins)
  show ?thesis
  proof (cases r1)
    case Threw
    with assms s1 show ?thesis by (simp add: bind_io_simps)
  next
    case (Returned qid)
    with s1 have q: "qid = question_seq w" and c1: "calm w1 = calm (w\<lparr>questions := questions w @
           [\<lparr>q_id = question_seq w, q_module_id = m, q_topic = Some t, q_text = the (c_question item),
             q_difficulty = 2, q_slide_reference = or_null (c_slideLink item), q_explanation = None\<rparr>],
        question_seq := Suc (question_seq w)\<rparr>)"
      by (auto dest: insert_question_returned)
    from assms s1 Returned have "insert_options qid (the (c_options item)) (c_correctIndex item) 0 w1 = (Returned u, w')"
      by (simp add: bind_io_simps)
    then have c2: "calm w' = calm (w1\<lparr>options := options w1 @ option_rows qid (the (c_options item)) (c_correctIndex item) 0 (option_seq w1),
                      option_seq := option_seq w1 + length (the (c_options item))\<rparr>)"
      by (rule insert_options_returned)
    from calm_fields [OF c1] calm_fields [OF c2] q show ?thesis
      by (intro calm_eqI) (simp_all add: seed_item_def)
  qed
qed

lemma insert_row_snapshot:
  assumes "bind_io (insert_question m t x d s e w) (\<lambda>qid. insert_options qid opts ci 0) = (r, w')"
  shows "snapshot w' = snapshot w"
proof -
  obtain r1 w1 where s1: "insert_question m t x d s e w = (r1, w1)"
    by (cases "insert_question m t x d s e w")
  then have q1: "snapshot w1 = snapshot w" by (rule insert_question_snapshot)
  show ?thesis
  proof (cases r1)
    case Threw
    with assms s1 q1 show ?thesis by (simp add: bind_io_simps)
  next
    case (Returned qid)
    with assms s1 have "insert_options qid opts ci 0 w1 = (r, w')" by (simp add: bind_io_simps)
    then have "snapshot w' = snapshot w1" by (rule insert_options_snapshot)
    with q1 show ?thesis by simp
  qed
qed

lemma snapshot_log_event [simp]: "snapshot (log_event e w) = snapshot w"
  by (simp add: log_event_def)

lemma import_batch_module_Cons:
  "import_batch_module m T (item # b) w =
     (if passes_validation item
      then bind_io
             (bind_io
                (insert_question m (Some T) (the (c_question item)) 2 (or_null (c_slideLink item)) None w)
                (\<lambda>qid. insert_options qid (the (c_options item)) (c_correctIndex item) 0))
             (\<lambda>_. import_batch_module m T b)
      else import_batch_module m T b (log_event Warn_invalid w))"
  by (simp add: passes_validation_def)

lemma import_batch_module_snapshot:
  "import_batch_module m T b w = (r, w') \<Longrightarrow> snapshot w' = snapshot w"
proof (induction b arbitrary: w)
  case Nil
  then show ?case by simp
next
  case (Cons item b)
  show ?case
  proof (cases "\<not> passes_validation item")
    case True
    with Cons.prems have "import_batch_module m T b (log_event Warn_invalid w) = (r, w')"
      by (simp only: import_batch_module_Cons if_False)
    then have "snapshot w' = snapshot (log_event Warn_invalid w)" by (rule Cons.IH)
    then show ?thesis by simp
  next
    case False
    let ?row = "bind_io (insert_question m (Some T) (the (c_question item)) 2 (or_null (c_slideLink item)) None w)
             (\<lambda>qid. insert_options qid (the (c_options item)) (c_correctIndex item) 0)"
    obtain r1 w1 where s1: "?row = (r1, w1)" by (cases ?row)
    then have q1: "snapshot w1 = snapshot w" by (rule insert_row_snapshot)
    show ?thesis
    proof (cases r1)
      case Threw
      with Cons.prems False s1 q1 show ?thesis
        by (simp add: import_batch_module_Cons bind_io_simps del: import_batch_module.simps)
    next
      case (Returned u)
      with Cons.prems False s1 have "import_batch_module m T b w1 = (r, w')"
        by (simp add: import_batch_module_Cons bind_io_simps del: import_batch_module.simps)
      then have "snapshot w' = snapshot w1" by (rule Cons.IH)
      with q1 show ?thesis by simp
    qed
  qed
qed

lemma import_batch_module_returned:
  "import_batch_module m T b w = (Returned u, w') \<Longrightarrow> calm w' = calm (seed_all m T b w)"
proof (induction b arbitrary: w)
  case Nil
  then show ?case by simp
next
  case (Cons item b)
  show ?case
  proof (cases "\<not> passes_validation item")
    case True
    with Cons.prems have "import_batch_module m T b (log_event Warn_invalid w) = (Returned u, w')"
      by (simp only: import_batch_module_Cons if_False)
    then have "calm w' = calm (seed_all m T b (log_event Warn_invalid w))" by (rule Cons.IH)
    with True show ?thesis by (simp add: skip_or_seed_def)
  next
    case False
    let ?row = "bind_io (insert_question m (Some T) (the (c_question item)) 2 (or_null (c_slideLink item)) None w)
             (\<lambda>qid. insert_options qid (the (c_options item)) (c_correctIndex item) 0)"
    obtain r1 w1 where s1: "?row = (r1, w1)" by (cases ?row)
    show ?thesis
    proof (cases r1)
      case Threw
      with Cons.prems False s1 show ?thesis
        by (simp add: import_batch_module_Cons bind_io_simps del: import_batch_module.simps)
    next
      case (Returned v)
      with s1 have c1: "calm w1 = calm (seed_item m T item w)" by (simp add: insert_row_returned)
      from Cons.prems False s1 Returned have "import_batch_module m T b w1 = (Returned u, w')"
        by (simp add: import_batch_module_Cons bind_io_simps del: import_batch_module.simps)
      then have "calm w' = calm (seed_all m T b w1)" by (rule Cons.IH)
      also have "\<dots> = seed_all m T b (calm w1)" by (simp add: seed_all_calm)
      also have "\<dots> = seed_all m T b (calm (seed_item m T item w))" by (simp only: c1)
      also have "\<dots> = calm (seed_all m T b (seed_item m T item w))" by (simp add: seed_all_calm)
      finally show ?thesis using False by (simp add: skip_or_seed_def)
    qed
  qed
qed

lemma delete_options_snapshot:
  "delete_options P w = (r, w') \<Longrightarrow> snapshot w' = snapshot w"
  by (auto simp: delete_options_def advance_def split: if_splits)

lemma delete_questions_snapshot:
  "delete_questions P w = (r, w') \<Longrightarrow> snapshot w' = snapshot w"
  by (auto simp: delete_questions_def advance_def split: if_splits)

lemma delete_phase_snapshot:
  assumes "bind_io (delete_options_in_partition m T w) (\<lambda>_. delete_questions (in_partition m T)) = (r, w')"
  shows "snapshot w' = snapshot w"
proof -
  obtain r1 w1 where s1: "delete_options_in_partition m T w = (r1, w1)"
    by (cases "delete_options_in_partition m T w")
  then have q1: "snapshot w1 = snapshot w"
    by (simp add: delete_options_in_partition_def delete_options_snapshot)
  show ?thesis
  proof (cases r1)
    case Threw
    with assms s1 q1 show ?thesis by (simp add: bind_io_simps)
  next
    case (Returned u)
    with assms s1 have "delete_questions (in_partition m T) w1 = (r, w')" by (simp add: bind_io_simps)
    then have "snapshot w' = snapshot w1" by (rule delete_questions_snapshot)
    with q1 show ?thesis by simp
  qed
qed

lemma delete_phase_returned:
  assumes "bind_io (delete_options_in_partition m T w) (\<lambda>_. delete_questions (in_partition m T)) = (Returned u, w')"
  shows "calm w' = calm (clear_partition m T w)"
proof -
  obtain r1 w1 where s1: "delete_options_in_partition m T w = (r1, w1)"
    by (cases "delete_options_in_partition m T w")
  show ?thesis
  proof (cases r1)
    case Threw
    with assms s1 show ?thesis by (simp add: bind_io_simps)
  next
    case (Returned v)
    with s1 have w1: "w1 = (advance w)\<lparr>options :=
        filter (\<lambda>opt. \<not> o_question_id opt \<in> q_id ` set (filter (in_partition m T) (questions w))) (options w)\<rparr>"
      by (auto simp: delete_options_in_partition_def delete_options_def split: if_splits)
    from assms s1 Returned have "delete_questions (in_partition m T) w1 = (Returned u, w')"
      by (simp add: bind_io_simps)
    then have "w' = (advance w1)\<lparr>questions := filter (\<lambda>q. \<not> in_partition m T q) (questions w1)\<rparr>"
      by (auto simp: delete_questions_def split: if_splits)
    with w1 show ?thesis
      by (intro calm_eqI) (simp_all add: clear_partition_def partition_questions_def advance_def)
  qed
qed

lemma tables_ROLLBACK:
  "snapshot w = Some s \<Longrightarrow> tables (query_ROLLBACK w) = s \<and> snapshot (query_ROLLBACK w) = None"
  by (cases s) (auto simp: query_ROLLBACK_def tables_def)

lemma snapshot_BEGIN [simp]: "snapshot (query_BEGIN w) = Some (tables w)"
  by (simp add: query_BEGIN_def tables_def)

lemma snapshot_COMMIT [simp]: "snapshot (query_COMMIT w) = None"
  by (simp add: query_COMMIT_def)

lemma run_batches_Cons_cases:
  assumes "run_batches m T (b # bs) w = (r, w')"
  obtains (threw) "import_batch_module m T b (query_BEGIN w) = (Threw, w')" "r = Threw"
  | (returned) u w1 where "import_batch_module m T b (query_BEGIN w) = (Returned u, w1)"
      "run_batches m T bs (query_COMMIT w1) = (r, w')"
proof -
  obtain r1 w1 where s1: "import_batch_module m T b (query_BEGIN w) = (r1, w1)"
    by (cases "import_batch_module m T b (query_BEGIN w)")
  show ?thesis
  proof (cases r1)
    case Threw
    with assms s1 have "r = Threw" "w' = w1" by simp_all
    with s1 Threw show ?thesis by (intro threw) simp_all
  next
    case (Returned u)
    with assms s1 have "run_batches m T bs (query_COMMIT w1) = (r, w')" by simp
    with s1 Returned show ?thesis by (intro returned) simp_all
  qed
qed

lemma committed_batch:
  assumes "import_batch_module m T b (query_BEGIN w) = (Returned u, w1)"
  shows "calm (query_COMMIT w1) = calm (seed_all m T b w)"
proof -
  from assms have "calm w1 = calm (seed_all m T b (query_BEGIN w))"
    by (rule import_batch_module_returned)
  then show ?thesis by (simp add: seed_all_calm [symmetric])
qed

lemma run_batches_returned:
  "run_batches m T bs w = (Returned v, w') \<Longrightarrow>
   calm w' = calm (seed_all m T (concat bs) w) \<and> (snapshot w = None \<longrightarrow> snapshot w' = None)"
proof (induction bs arbitrary: w)
  case Nil
  then show ?case by simp
next
  case (Cons b bs)
  from Cons.prems show ?case
  proof (cases rule: run_batches_Cons_cases)
    case threw
    then show ?thesis by simp
  next
    case (returned u w1)
    from committed_batch [OF returned(1)]
    have c1: "calm (query_COMMIT w1) = calm (seed_all m T b w)" .
    from Cons.IH [OF returned(2)]
    have c2: "calm w' = calm (seed_all m T (concat bs) (query_COMMIT w1))"
      and sn: "snapshot w' = None" by simp_all
    have "calm (seed_all m T (concat bs) (query_COMMIT w1)) = seed_all m T (concat bs) (calm (query_COMMIT w1))"
      by (simp only: seed_all_calm)
    also have "\<dots> = seed_all m T (concat bs) (calm (seed_all m T b w))" by (simp only: c1)
    also have "\<dots> = calm (seed_all m T (b @ concat bs) w)"
      by (simp only: seed_all_calm seed_all_append)
    finally have "calm w' = calm (seed_all m T (concat (b # bs)) w)" using c2 by simp
    with sn show ?thesis by simp
  qed
qed

lemma run_batches_threw:
  "run_batches m T bs w = (Threw, w') \<Longrightarrow>
   \<exists>pre post. bs = pre @ post \<and> post \<noteq> []
      \<and> snapshot w' = Some (tables (seed_all m T (concat pre) w))"
proof (induction bs arbitrary: w)
  case Nil
  then show ?case by simp
next
  case (Cons b bs)
  from Cons.prems show ?case
  proof (cases rule: run_batches_Cons_cases)
    case threw
    then have "snapshot w' = Some (tables w)"
      by (simp add: import_batch_module_snapshot)
    then have "b # bs = [] @ (b # bs) \<and> b # bs \<noteq> []
        \<and> snapshot w' = Some (tables (seed_all m T (concat []) w))"
      by simp
    then show ?thesis by blast
  next
    case (returned u w1)
    from committed_batch [OF returned(1)]
    have c1: "calm (query_COMMIT w1) = calm (seed_all m T b w)" .
    from Cons.IH [OF returned(2)] obtain pre post where p: "bs = pre @ post" "post \<noteq> []"
        "snapshot w' = Some (tables (seed_all m T (concat pre) (query_COMMIT w1)))"
      by blast
    have "tables (seed_all m T (concat pre) (query_COMMIT w1)) = tables (seed_all m T (concat pre) (seed_all m T b w))"
      using c1 by (rule tables_seed_all_cong)
    also have "\<dots> = tables (seed_all m T (b @ concat pre) w)"
      by (simp only: seed_all_append)
    finally have "snapshot w' = Some (tables (seed_all m T (concat (b # pre)) w))"
      using p(3) by simp
    moreover have "b # bs = (b # pre) @ post" using p(1) by simp
    ultimately have "b # bs = (b # pre) @ post \<and> post \<noteq> []
        \<and> snapshot w' = Some (tables (seed_all m T (concat (b # pre)) w))"
      using p(2) by blast
    then show ?thesis by blast
  qed
qed

lemma chunks_prefix:
  "0 < n \<Longrightarrow> chunks n xs = pre @ post \<Longrightarrow> post \<noteq> [] \<Longrightarrow>
   concat pre = take (length pre * n) xs \<and> length pre * n < length xs"
proof (induction pre arbitrary: xs)
  case Nil
  from Nil.prems have "chunks n xs \<noteq> []" by simp
  then have "xs \<noteq> []" by (subst (asm) chunks.simps) (simp split: if_splits)
  then show ?case by simp
next
  case (Cons p pre)
  from Cons.prems have ne: "chunks n xs \<noteq> []" by simp
  then have xs: "xs \<noteq> []" by (subst (asm) chunks.simps) (simp split: if_splits)
  with Cons.prems(1) have ch: "chunks n xs = take n xs # chunks n (drop n xs)"
    by (subst chunks.simps) simp
  with Cons.prems(2) have p: "p = take n xs" and rest: "chunks n (drop n xs) = pre @ post" by simp_all
  from Cons.IH [OF Cons.prems(1) rest Cons.prems(3)]
  have ih: "concat pre = take (length pre * n) (drop n xs)" "length pre * n < length (drop n xs)" by simp_all
  have "concat (p # pre) = take n xs @ take (length pre * n) (drop n xs)" using p ih(1) by simp
  also have "\<dots> = take (n + length pre * n) xs" by (simp add: take_add)
  finally have "concat (p # pre) = take (length (p # pre) * n) xs" by simp
  moreover have "length (p # pre) * n < length xs" using ih(2) by simp
  ultimately show ?case by simp
qed

lemma importQuestions_module_outcome:
  assumes "0 < batchSize"
  shows "\<exists>r w'. importQuestions_module m t qs batchSize w = Some (r, w')
           \<and> snapshot w' = None
           \<and> (case r of
                 Returned n \<Rightarrow> n = length qs
                   \<and> tables w' = tables (seed_all m (toUpperCase t) qs (clear_partition m (toUpperCase t) w))
               | Threw \<Rightarrow> tables w' = tables w
                   \<or> (\<exists>k. k * batchSize < length qs
                         \<and> tables w' = tables (seed_all m (toUpperCase t) (take (k * batchSize) qs)
                                            (clear_partition m (toUpperCase t) w))))"
proof -
  let ?T = "toUpperCase t"
  let ?del = "bind_io (delete_options_in_partition m ?T (query_BEGIN w))
                (\<lambda>_. delete_questions (in_partition m ?T))"
  obtain r1 w1 where s1: "?del = (r1, w1)" by (cases ?del)
  then have snap1: "snapshot w1 = Some (tables w)" by (simp add: delete_phase_snapshot)
  show ?thesis
  proof (cases r1)
    case Threw
    with s1 have "importQuestions_module m t qs batchSize w = Some (Threw, query_ROLLBACK w1)"
      by (simp add: importQuestions_module_def)
    with tables_ROLLBACK [OF snap1] show ?thesis by simp
  next
    case (Returned u)
    with s1 have "calm w1 = calm (clear_partition m ?T (query_BEGIN w))"
      by (simp add: delete_phase_returned)
    then have c1: "calm (query_COMMIT w1) = calm (clear_partition m ?T w)"
      by (simp add: clear_partition_calm [symmetric])
    let ?run = "run_batches m ?T (chunks batchSize qs) (query_COMMIT w1)"
    have loop: "module_batches batchSize m ?T qs 0 (query_COMMIT w1) = Some ?run"
      using module_batches_eq [OF assms, of m ?T qs 0] by simp
    obtain r2 w2 where s2: "?run = (r2, w2)" by (cases ?run)
    show ?thesis
    proof (cases r2)
      case Threw
      with s2 have "?run = (Threw, w2)" by simp
      from run_batches_threw [OF this]
      obtain pre post where p: "chunks batchSize qs = pre @ post" "post \<noteq> []"
          "snapshot w2 = Some (tables (seed_all m ?T (concat pre) (query_COMMIT w1)))"
        by blast
      from chunks_prefix [OF assms p(1,2)]
      have k: "concat pre = take (length pre * batchSize) qs" "length pre * batchSize < length qs"
        by simp_all
      have "tables (seed_all m ?T (concat pre) (query_COMMIT w1))
          = tables (seed_all m ?T (concat pre) (clear_partition m ?T w))"
        using c1 by (rule tables_seed_all_cong)
      with p(3) k(1) have snap2: "snapshot w2 = Some (tables (seed_all m ?T (take (length pre * batchSize) qs)
          (clear_partition m ?T w)))" by simp
      from s1 Returned loop s2 Threw
      have "importQuestions_module m t qs batchSize w = Some (Threw, query_ROLLBACK w2)"
        by (simp add: importQuestions_module_def)
      moreover from tables_ROLLBACK [OF snap2]
      have "tables (query_ROLLBACK w2) = tables (seed_all m ?T (take (length pre * batchSize) qs)
          (clear_partition m ?T w))" "snapshot (query_ROLLBACK w2) = None" by simp_all
      ultimately show ?thesis using k(2) by simp blast
    next
      case r2: (Returned v)
      with s2 have "?run = (Returned v, w2)" by simp
      from run_batches_returned [OF this]
      have c2: "calm w2 = calm (seed_all m ?T (concat (chunks batchSize qs)) (query_COMMIT w1))"
        and sn: "snapshot w2 = None" by simp_all
      have "tables w2 = tables (calm w2)" by simp
      also have "\<dots> = tables (seed_all m ?T qs (query_COMMIT w1))"
        using assms by (simp only: c2 concat_chunks tables_calm)
      also have "\<dots> = tables (seed_all m ?T qs (clear_partition m ?T w))"
        using c1 by (rule tables_seed_all_cong)
      finally have t2: "tables w2 = tables (seed_all m ?T qs (clear_partition m ?T w))" .
      from s1 Returned loop s2 r2
      have "importQuestions_module m t qs batchSize w = Some (Returned (length qs), w2)"
        by (simp add: importQuestions_module_def)
      with t2 sn show ?thesis by simp
    qed
  qed
qed

text \<open>
  Claim C5, as the code has it. In \<open>scripts/import-module.js\<close> the deletion is one
  transaction and every batch of inserts is another. For every fault schedule and every
  batch size of at least 1 the call ends with no transaction open. When it throws, the
  tables are either those from before the call (the store failed while deleting) or those
  of a run without faults over the first \<open>k\<close> batches only, for some \<open>k\<close> (the
  store failed in the batch after them): the open transaction is undone, the committed
  ones stay. When it returns, the tables are those of a run without faults over all the
  records, and the value is the length of the input.
\<close>

theorem importQuestions_module_transactions:
  assumes "0 < batchSize"
  shows "\<exists>r w'. importQuestions_module m t qs batchSize w = Some (r, w')
           \<and> snapshot w' = None
           \<and> (case r of
                 Returned n \<Rightarrow> n = length qs
                   \<and> tables w' = tables (seed_all m (toUpperCase t) qs (clear_partition m (toUpperCase t) w))
               | Threw \<Rightarrow> tables w' = tables w
                   \<or> (\<exists>k. k * batchSize < length qs
                         \<and> tables w' = tables (seed_all m (toUpperCase t) (take (k * batchSize) qs)
                                            (clear_partition m (toUpperCase t) w))))"
  using assms by (rule importQuestions_module_outcome)

lemma import_batch_module_healthy:
  "faults w = [] \<Longrightarrow> import_batch_module m T b w = (Returned (), seed_all m T b w)"
proof (induction b arbitrary: w)
  case Nil
  then show ?case by simp
next
  case (Cons item b)
  show ?case
  proof (cases "passes_validation item")
    case True
    have "faults (seed_item m T item w) = []" using Cons.prems by simp
    from Cons.IH [OF this] show ?thesis
      using True Cons.prems
      by (simp add: import_batch_module_Cons insert_question_healthy insert_options_healthy
          bind_io_simps skip_or_seed_def seed_item_def del: import_batch_module.simps)
  next
    case False
    have "faults (log_event Warn_invalid w) = []" using Cons.prems by simp
    from Cons.IH [OF this] show ?thesis
      using False
      by (simp add: import_batch_module_Cons skip_or_seed_def del: import_batch_module.simps)
  qed
qed

lemma seed_item_snapshot: "seed_item m t item (w\<lparr>snapshot := s\<rparr>) = (seed_item m t item w)\<lparr>snapshot := s\<rparr>"
  by (simp add: seed_item_def)

lemma skip_or_seed_snapshot:
  "skip_or_seed m t item (w\<lparr>snapshot := s\<rparr>) = (skip_or_seed m t item w)\<lparr>snapshot := s\<rparr>"
  by (simp add: skip_or_seed_def seed_item_snapshot log_event_def)

lemma seed_all_snapshot:
  "seed_all m t qs (w\<lparr>snapshot := s\<rparr>) = (seed_all m t qs w)\<lparr>snapshot := s\<rparr>"
  by (induction qs arbitrary: w) (simp_all add: skip_or_seed_snapshot)

lemma snapshot_seed_all [simp]: "snapshot (seed_all m t qs w) = snapshot w"
  by (induction qs arbitrary: w) (simp_all add: skip_or_seed_def seed_item_def log_event_def)

lemma snapshot_None_id: "snapshot w = None \<Longrightarrow> w\<lparr>snapshot := None\<rparr> = w"
  by (cases w) simp

lemma healthy_batch_committed:
  assumes "faults w = []" and "snapshot w = None"
  shows "query_COMMIT (seed_all m T b (query_BEGIN w)) = seed_all m T b w"
proof -
  have "query_COMMIT (seed_all m T b (query_BEGIN w)) = (seed_all m T b w)\<lparr>snapshot := None\<rparr>"
    by (simp add: query_COMMIT_def query_BEGIN_def seed_all_snapshot)
  also have "\<dots> = seed_all m T b w"
    using assms(2) by (simp add: snapshot_None_id)
  finally show ?thesis .
qed

lemma run_batches_healthy:
  "faults w = [] \<Longrightarrow> snapshot w = None \<Longrightarrow>
   run_batches m T bs w = (Returned (), seed_all m T (concat bs) w)"
proof (induction bs arbitrary: w)
  case Nil
  then show ?case by simp
next
  case (Cons b bs)
  have f: "faults (query_BEGIN w) = []" using Cons.prems(1) by (simp add: query_BEGIN_def)
  have step: "import_batch_module m T b (query_BEGIN w) = (Returned (), seed_all m T b (query_BEGIN w))"
    using f by (rule import_batch_module_healthy)
  have c: "query_COMMIT (seed_all m T b (query_BEGIN w)) = seed_all m T b w"
    using Cons.prems by (rule healthy_batch_committed)
  have "faults (seed_all m T b w) = []" "snapshot (seed_all m T b w) = None"
    using Cons.prems by simp_all
  from Cons.IH [OF this] show ?case
    by (simp add: step c seed_all_append)
qed

lemma delete_phase_healthy:
  assumes "faults w = []"
  shows "bind_io (delete_options_in_partition m T w) (\<lambda>_. delete_questions (in_partition m T))
           = (Returned (), clear_partition m T w)"
proof -
  let ?w1 = "w\<lparr>options := filter (\<lambda>opt. \<not> o_question_id opt \<in> q_id ` set (filter (in_partition m T) (questions w))) (options w)\<rparr>"
  have f1: "faults ?w1 = []" using assms by simp
  have "delete_options_in_partition m T w = (Returned (), ?w1)"
    using assms by (simp only: delete_options_in_partition_def delete_options_healthy)
  then have "bind_io (delete_options_in_partition m T w) (\<lambda>_. delete_questions (in_partition m T))
      = delete_questions (in_partition m T) ?w1"
    by (simp only: bind_io_simps)
  also have "\<dots> = (Returned (), ?w1\<lparr>questions := filter (\<lambda>q. \<not> in_partition m T q) (questions ?w1)\<rparr>)"
    using f1 by (rule delete_questions_healthy)
  finally show ?thesis
    by (simp add: clear_partition_def partition_questions_def del: set_filter)
qed

lemma importQuestions_module_healthy:
  assumes "faults w = []" and "0 < batchSize"
  shows "importQuestions_module m t qs batchSize w =
     Some (Returned (length qs),
           seed_all m (toUpperCase t) qs (query_COMMIT (clear_partition m (toUpperCase t) (query_BEGIN w))))"
proof -
  let ?T = "toUpperCase t"
  let ?w1 = "clear_partition m ?T (query_BEGIN w)"
  have f0: "faults (query_BEGIN w) = []" using assms(1) by (simp add: query_BEGIN_def)
  have del: "bind_io (delete_options_in_partition m ?T (query_BEGIN w))
                (\<lambda>_. delete_questions (in_partition m ?T)) = (Returned (), ?w1)"
    using f0 by (rule delete_phase_healthy)
  have f1: "faults (query_COMMIT ?w1) = []" using f0 by (simp add: query_COMMIT_def)
  have s1: "snapshot (query_COMMIT ?w1) = None" by simp
  have "module_batches batchSize m ?T qs 0 (query_COMMIT ?w1)
      = Some (run_batches m ?T (chunks batchSize qs) (query_COMMIT ?w1))"
    using module_batches_eq [OF assms(2), of m ?T qs 0] by simp
  also have "\<dots> = Some (Returned (), seed_all m ?T qs (query_COMMIT ?w1))"
    using assms(2) by (simp only: run_batches_healthy [OF f1 s1] concat_chunks)
  finally have loop: "module_batches batchSize m ?T qs 0 (query_COMMIT ?w1)
      = Some (Returned (), seed_all m ?T qs (query_COMMIT ?w1))" .
  show ?thesis
    by (simp add: importQuestions_module_def Let_def del loop)
qed

lemma wf_store_BEGIN [simp]: "wf_store (query_BEGIN w) = wf_store w"
  by (simp add: wf_store_def query_BEGIN_def)

lemma wf_store_COMMIT [simp]: "wf_store (query_COMMIT w) = wf_store w"
  by (simp add: wf_store_def query_COMMIT_def)

lemma faults_BEGIN [simp]: "faults (query_BEGIN w) = faults w"
  by (simp add: query_BEGIN_def)

lemma faults_COMMIT [simp]: "faults (query_COMMIT w) = faults w"
  by (simp add: query_COMMIT_def)

lemma partition_content_COMMIT [simp]:
  "partition_content m t (query_COMMIT w) = partition_content m t w"
  by (simp add: partition_content_def partition_questions_def question_content_def
      options_of_def query_COMMIT_def cong: map_cong)

lemma importQuestions_module_content:
  assumes "wf_store w"
  shows "partition_content m T (seed_all m T qs (query_COMMIT (clear_partition m T (query_BEGIN w))))
       = map expected_content (filter passes_validation qs)"
proof -
  have "wf_store (query_COMMIT (clear_partition m T (query_BEGIN w)))"
    using assms by (simp add: wf_store_clear_partition)
  from partition_content_seed_all [OF this, of m T qs] show ?thesis by simp
qed

text \<open>
  Claim C8. With any batch size of at least 1, \<open>importQuestions\<close> of
  \<open>scripts/import.ts\<close> returns what processing the records one by one returns, the
  count and the store, whatever the faults. On a store that does not fail,
  \<open>importQuestions\<close> of \<open>scripts/import-module.js\<close> returns the same value and
  the same store as with batches of one record: the value is the length of the input, and
  the store is the committed, cleared store with the records seeded in input order, which
  is also what the loop body of \<open>scripts/import.ts\<close> leaves when it is run on the
  records one by one. On a store with well-formed identifiers the partition then holds
  exactly the records that pass the validation, in input order, each with its options in
  order and its flags.
\<close>

theorem batch_size_is_irrelevant:
  assumes "0 < batchSize"
  shows "importQuestions_sized batchSize m t qs w
           = Some (foldl (\<lambda>s item. import_item m t item s) (0, w) qs)
         \<and> importQuestions_sized batchSize m t qs w = importQuestions_sized 1 m t qs w
         \<and> (faults w = [] \<longrightarrow>
              importQuestions_module m t qs batchSize w = importQuestions_module m t qs 1 w
              \<and> (\<exists>w'. importQuestions_module m t qs batchSize w = Some (Returned (length qs), w')
                    \<and> w' = seed_all m (toUpperCase t) qs
                             (query_COMMIT (clear_partition m (toUpperCase t) (query_BEGIN w)))
                    \<and> w' = snd (foldl (\<lambda>s item. import_item m (toUpperCase t) item s)
                                  (0, query_COMMIT (clear_partition m (toUpperCase t) (query_BEGIN w))) qs)
                    \<and> (wf_store w \<longrightarrow>
                          partition_content m (toUpperCase t) w'
                            = map expected_content (filter passes_validation qs)
                          \<and> length (partition_questions m (toUpperCase t) w')
                            = length (filter passes_validation qs))))"
proof -
  let ?T = "toUpperCase t"
  let ?w0 = "query_COMMIT (clear_partition m ?T (query_BEGIN w))"
  let ?w' = "seed_all m ?T qs ?w0"
  have a: "\<And>bs. 0 < bs \<Longrightarrow> importQuestions_sized bs m t qs w
      = Some (foldl (\<lambda>s item. import_item m t item s) (0, w) qs)"
    by (simp add: importQuestions_sized_def batch_loop_eq import_batch_def)
  have one: "importQuestions_sized 1 m t qs w
      = Some (foldl (\<lambda>s item. import_item m t item s) (0, w) qs)"
    by (rule a) simp
  have same: "importQuestions_sized batchSize m t qs w = importQuestions_sized 1 m t qs w"
    using a [OF assms] one by simp
  have module: "faults w = [] \<longrightarrow>
      importQuestions_module m t qs batchSize w = importQuestions_module m t qs 1 w
      \<and> (\<exists>w'. importQuestions_module m t qs batchSize w = Some (Returned (length qs), w')
            \<and> w' = ?w'
            \<and> w' = snd (foldl (\<lambda>s item. import_item m ?T item s) (0, ?w0) qs)
            \<and> (wf_store w \<longrightarrow>
                  partition_content m ?T w' = map expected_content (filter passes_validation qs)
                  \<and> length (partition_questions m ?T w') = length (filter passes_validation qs)))"
  proof
    assume h: "faults w = []"
    have run: "importQuestions_module m t qs batchSize w = Some (Returned (length qs), ?w')"
      using h assms by (rule importQuestions_module_healthy)
    have run1: "importQuestions_module m t qs 1 w = Some (Returned (length qs), ?w')"
      using h by (rule importQuestions_module_healthy) simp
    have "faults ?w0 = []" using h by simp
    from import_batch_healthy [OF this, of m ?T qs 0]
    have fold: "?w' = snd (foldl (\<lambda>s item. import_item m ?T item s) (0, ?w0) qs)"
      by (simp add: import_batch_def)
    have content: "wf_store w \<longrightarrow>
        partition_content m ?T ?w' = map expected_content (filter passes_validation qs)
        \<and> length (partition_questions m ?T ?w') = length (filter passes_validation qs)"
    proof
      assume "wf_store w"
      then have c: "partition_content m ?T ?w' = map expected_content (filter passes_validation qs)"
        by (rule importQuestions_module_content)
      then have "length (partition_content m ?T ?w') = length (filter passes_validation qs)"
        by simp
      then have "length (partition_questions m ?T ?w') = length (filter passes_validation qs)"
        by (simp add: partition_content_def)
      with c show "partition_content m ?T ?w' = map expected_content (filter passes_validation qs)
        \<and> length (partition_questions m ?T ?w') = length (filter passes_validation qs)" by simp
    qed
    from run run1 fold content
    show "importQuestions_module m t qs batchSize w = importQuestions_module m t qs 1 w
      \<and> (\<exists>w'. importQuestions_module m t qs batchSize w = Some (Returned (length qs), w')
            \<and> w' = ?w'
            \<and> w' = snd (foldl (\<lambda>s item. import_item m ?T item s) (0, ?w0) qs)
            \<and> (wf_store w \<longrightarrow>
                  partition_content m ?T w' = map expected_content (filter passes_validation qs)
                  \<and> length (partition_questions m ?T w') = length (filter passes_validation qs)))"
      by (intro conjI exI [of _ ?w']) simp_all
  qed
  from a [OF assms] same module show ?thesis by (intro conjI)
qed

subsection \<open>Examples of failing and of batched runs\<close>

lemma toUpperCase_FOCS2: "toUpperCase ''FOCS2'' = ''FOCS2''"
  by (simp add: toUpperCase_def upper_char_def)

lemma toUpperCase_focs2: "toUpperCase ''focs2'' = ''FOCS2''"
  by code_simp

text \<open>
  Two failing runs. For \<open>scripts/import-module.js\<close> the store fails at the third
  statement, the first insert: the deletion is already committed, so the call throws and
  leaves the partition empty, neither as it was nor reseeded. For \<open>scripts/import.ts\<close>,
  which opens no transaction, the store fails at the sixth statement, the second option of
  the record: the error is caught and printed, the call returns, and the partition holds
  the new question with one of its three options.
\<close>

theorem reseed_failure_counterexample:
  "importQuestions_module ''focs'' ''FOCS2'' [record_B] 10 store_failing = Some (Threw, store_emptied_by_failure)
   \<and> length (partition_questions ''focs'' ''FOCS2'' store_failing) = 1
   \<and> length (filter passes_validation [record_B]) = 1
   \<and> length (partition_questions ''focs'' ''FOCS2'' store_emptied_by_failure) = 0
   \<and> processModule ''focs'' ''FOCS2'' [record_B] store_failing_late = Some (Returned (), store_half_written)
   \<and> partition_content ''focs'' ''FOCS2'' store_half_written = [(''Q1'', 2, None, None, [(''A'', False)])]"
proof -
  have "importQuestions_module ''focs'' ''FOCS2'' [record_B] 10 store_failing = Some (Threw, store_emptied_by_failure)
     \<and> length (partition_questions ''focs'' ''FOCS2'' store_failing) = 1
     \<and> length (filter passes_validation [record_B]) = 1
     \<and> length (partition_questions ''focs'' ''FOCS2'' store_emptied_by_failure) = 0"
    by (simp add: importQuestions_module_def module_batches_eq toUpperCase_FOCS2 chunks.simps
        delete_options_in_partition_def delete_options_def delete_questions_def insert_question_def
        raises_def advance_def bind_io_simps query_BEGIN_def query_COMMIT_def query_ROLLBACK_def
        passes_validation_def truthy_def or_null_def in_partition_def partition_questions_def
        record_B_def store_failing_def store_emptied_by_failure_def example_store_def)
  moreover have "processModule ''focs'' ''FOCS2'' [record_B] store_failing_late = Some (Returned (), store_half_written)
     \<and> partition_content ''focs'' ''FOCS2'' store_half_written = [(''Q1'', 2, None, None, [(''A'', False)])]"
    by (simp add: processModule_def deleteExistingQuestions_def select_questions_def
        delete_options_def delete_questions_def insert_question_def insert_option_def
        importQuestions_total import_batch_def bind_io_simps raises_def advance_def log_event_def
        truthy_def or_null_def in_partition_def partition_content_def partition_questions_def
        question_content_def options_of_def
        record_B_def store_failing_late_def store_half_written_def example_store_def)
  ultimately show ?thesis by simp
qed

theorem importQuestions_module_transactions_witness:
  "\<exists>r w'. importQuestions_module ''focs'' ''focs2'' [record_B, record_A] 1 store_failing = Some (r, w')
      \<and> snapshot w' = None
      \<and> (case r of
            Returned n \<Rightarrow> n = length [record_B, record_A]
              \<and> tables w' = tables (seed_all ''focs'' (toUpperCase ''focs2'') [record_B, record_A]
                                   (clear_partition ''focs'' (toUpperCase ''focs2'') store_failing))
          | Threw \<Rightarrow> tables w' = tables store_failing
              \<or> (\<exists>k. k * 1 < length [record_B, record_A]
                    \<and> tables w' = tables (seed_all ''focs'' (toUpperCase ''focs2'') (take (k * 1) [record_B, record_A])
                                       (clear_partition ''focs'' (toUpperCase ''focs2'') store_failing))))"
proof -
  have "0 < (1::nat)" by simp
  then show ?thesis by (rule importQuestions_module_transactions)
qed

lemma example_contents:
  "map expected_content (filter passes_validation [record_B, record_no_text, record_A])
     = [(''Q1'', 2, None, None, [(''A'', False), (''B'', True), (''C'', False)]),
        (''Q2'', 2, Some ''Lecture01_FOCS.pdf'', None, [(''D'', True), (''E'', False), (''F'', False)])]"
  by (simp add: expected_content_def passes_validation_def truthy_def or_null_def marked_options_def
      record_B_def record_A_def record_no_text_def upt_rec)

theorem batch_size_is_irrelevant_witness:
  "importQuestions_sized 2 ''focs'' ''FOCS2'' [record_B, record_no_text, record_A] example_store
      = Some (foldl (\<lambda>s item. import_item ''focs'' ''FOCS2'' item s) (0, example_store)
                [record_B, record_no_text, record_A])
   \<and> importQuestions_sized 2 ''focs'' ''FOCS2'' [record_B, record_no_text, record_A] example_store
      = importQuestions_sized 1 ''focs'' ''FOCS2'' [record_B, record_no_text, record_A] example_store
   \<and> importQuestions_module ''focs'' ''FOCS2'' [record_B, record_no_text, record_A] 2 example_store
      = importQuestions_module ''focs'' ''FOCS2'' [record_B, record_no_text, record_A] 1 example_store
   \<and> (\<exists>w'. importQuestions_module ''focs'' ''FOCS2'' [record_B, record_no_text, record_A] 2 example_store
              = Some (Returned 3, w')
          \<and> partition_content ''focs'' ''FOCS2'' w'
              = [(''Q1'', 2, None, None, [(''A'', False), (''B'', True), (''C'', False)]),
                 (''Q2'', 2, Some ''Lecture01_FOCS.pdf'', None,
                  [(''D'', True), (''E'', False), (''F'', False)])]
          \<and> length (partition_questions ''focs'' ''FOCS2'' w') = 2)"
proof -
  let ?qs = "[record_B, record_no_text, record_A]"
  have "0 < (2::nat)" by simp
  note t = batch_size_is_irrelevant [OF this, of "''focs''" "''FOCS2''" ?qs example_store]
  from t have a: "importQuestions_sized 2 ''focs'' ''FOCS2'' ?qs example_store
      = Some (foldl (\<lambda>s item. import_item ''focs'' ''FOCS2'' item s) (0, example_store) ?qs)"
    by (rule conjunct1)
  from t have b: "importQuestions_sized 2 ''focs'' ''FOCS2'' ?qs example_store
      = importQuestions_sized 1 ''focs'' ''FOCS2'' ?qs example_store"
    by blast
  from t example_store_healthy
  have c: "importQuestions_module ''focs'' ''FOCS2'' ?qs 2 example_store
      = importQuestions_module ''focs'' ''FOCS2'' ?qs 1 example_store"
    by blast
  from t example_store_healthy example_store_wf
  obtain w' where run: "importQuestions_module ''focs'' ''FOCS2'' ?qs 2 example_store
        = Some (Returned (length ?qs), w')"
    and content: "partition_content ''focs'' (toUpperCase ''FOCS2'') w'
        = map expected_content (filter passes_validation ?qs)"
    and count: "length (partition_questions ''focs'' (toUpperCase ''FOCS2'') w')
        = length (filter passes_validation ?qs)"
    by blast
  from run have run': "importQuestions_module ''focs'' ''FOCS2'' ?qs 2 example_store
        = Some (Returned 3, w')" by simp
  from content have content': "partition_content ''focs'' ''FOCS2'' w'
        = [(''Q1'', 2, None, None, [(''A'', False), (''B'', True), (''C'', False)]),
           (''Q2'', 2, Some ''Lecture01_FOCS.pdf'', None,
            [(''D'', True), (''E'', False), (''F'', False)])]"
    by (simp only: toUpperCase_FOCS2 example_contents)
  from count have "length (partition_questions ''focs'' ''FOCS2'' w')
        = length (map expected_content (filter passes_validation ?qs))"
    by (simp only: toUpperCase_FOCS2 length_map)
  then have count': "length (partition_questions ''focs'' ''FOCS2'' w') = 2"
    by (simp only: example_contents) simp
  from a b c run' content' count' show ?thesis by blast
qed

subsection \<open>Attempts\<close>

text \<open>
  Claim C2 at a store with one attempt on the question and the option of the partition:
  \<open>clearQuestionsForTopic\<close> deletes the option and the question and no attempt, so
  the attempt is left naming identifiers that no longer exist.
\<close>

theorem clearQuestionsForTopic_leaves_attempts:
  "clearQuestionsForTopic ''focs'' ''FOCS2'' example_store = (Returned 1, store_emptied)
   \<and> attempts store_emptied = [\<lparr>a_id = 1, a_question_id = 1, a_selected_option_id = 1\<rparr>]
   \<and> questions store_emptied = []
   \<and> options store_emptied = []
   \<and> map q_id (questions example_store) = [1]
   \<and> map o_id (options example_store) = [1]"
  by (simp add: clearQuestionsForTopic_def deleteExistingQuestions_healthy example_store_healthy)
     (simp add: clear_partition_def partition_questions_def in_partition_def
      example_store_def store_emptied_def)

subsection \<open>The cleanup script\<close>

lemma delete_options_by_ids_healthy:
  "faults w = [] \<Longrightarrow>
   delete_options_by_ids ids w =
     (Returned (), w\<lparr>options := filter (\<lambda>opt. o_question_id opt \<notin> set ids) (options w)\<rparr>)"
proof (induction ids arbitrary: w)
  case Nil
  then show ?case by (cases w) simp
next
  case (Cons i ids)
  let ?w1 = "w\<lparr>options := filter (\<lambda>opt. \<not> o_question_id opt = i) (options w)\<rparr>"
  have f1: "faults ?w1 = []" using Cons.prems by simp
  have "filter (\<lambda>opt. o_question_id opt \<notin> set ids) (filter (\<lambda>opt. \<not> o_question_id opt = i) (options w))
      = filter (\<lambda>opt. o_question_id opt \<notin> set (i # ids)) (options w)"
    by (auto intro: filter_cong)
  then show ?case
    using Cons.prems
    by (simp add: delete_options_healthy bind_io_simps Cons.IH [OF f1])
qed

lemma delete_questions_by_ids_healthy:
  "faults w = [] \<Longrightarrow>
   delete_questions_by_ids ids w =
     (Returned (), w\<lparr>questions := filter (\<lambda>q. q_id q \<notin> set ids) (questions w)\<rparr>)"
proof (induction ids arbitrary: w)
  case Nil
  then show ?case by (cases w) simp
next
  case (Cons i ids)
  let ?w1 = "w\<lparr>questions := filter (\<lambda>q. \<not> q_id q = i) (questions w)\<rparr>"
  have f1: "faults ?w1 = []" using Cons.prems by simp
  have "filter (\<lambda>q. q_id q \<notin> set ids) (filter (\<lambda>q. \<not> q_id q = i) (questions w))
      = filter (\<lambda>q. q_id q \<notin> set (i # ids)) (questions w)"
    by (auto intro: filter_cong)
  then show ?case
    using Cons.prems
    by (simp add: delete_questions_healthy bind_io_simps Cons.IH [OF f1])
qed

lemma filter_by_invalid_ids:
  assumes "distinct (map q_id qs)"
  shows "filter (\<lambda>q. q_id q \<notin> set (map q_id (filter is_invalid qs))) qs = filter (\<lambda>q. \<not> is_invalid q) qs"
proof (rule filter_cong [OF refl])
  fix q assume q: "q \<in> set qs"
  from assms have inj: "inj_on q_id (set qs)" by (simp add: distinct_map)
  show "(q_id q \<notin> set (map q_id (filter is_invalid qs))) = (\<not> is_invalid q)"
  proof
    assume "q_id q \<notin> set (map q_id (filter is_invalid qs))"
    with q show "\<not> is_invalid q" by auto
  next
    assume n: "\<not> is_invalid q"
    show "q_id q \<notin> set (map q_id (filter is_invalid qs))"
    proof
      assume "q_id q \<in> set (map q_id (filter is_invalid qs))"
      then obtain q' where q': "q' \<in> set qs" "is_invalid q'" "q_id q' = q_id q" by auto
      with inj q have "q' = q" by (auto dest: inj_onD)
      with q' n show False by simp
    qed
  qed
qed

lemma cleanupDatabase_healthy:
  assumes "faults w = []"
  shows "cleanupDatabase w = (Returned (), cleanup_result w)"
proof (cases "filter is_invalid (questions w) = []")
  case True
  then have "cleanup_result w = w"
    by (cases w) (simp add: cleanup_result_def)
  with True assms show ?thesis
    by (simp add: cleanupDatabase_def select_questions_healthy bind_io_simps)
next
  case False
  let ?ids = "map q_id (filter is_invalid (questions w))"
  let ?oids = "map o_id (filter (\<lambda>opt. o_question_id opt \<in> set ?ids) (options w))"
  let ?w3 = "w\<lparr>attempts := filter (\<lambda>a. \<not> a_selected_option_id a \<in> set ?oids) (attempts w)\<rparr>"
  have s3: "(if length ?oids > 0 then delete_attempts (\<lambda>a. a_selected_option_id a \<in> set ?oids) w
             else (Returned (), w)) = (Returned (), ?w3)"
  proof (cases "?oids = []")
    case True
    then have "?w3 = w" by (cases w) simp
    with True show ?thesis by simp
  next
    case False
    with assms show ?thesis by (simp add: delete_attempts_healthy)
  qed
  let ?w4 = "?w3\<lparr>attempts := filter (\<lambda>a. \<not> a_question_id a \<in> set ?ids) (attempts ?w3)\<rparr>"
  have f3: "faults ?w3 = []" using assms by simp
  have s4: "delete_attempts (\<lambda>a. a_question_id a \<in> set ?ids) ?w3 = (Returned (), ?w4)"
    using f3 by (rule delete_attempts_healthy)
  have f4: "faults ?w4 = []" using assms by simp
  let ?w5 = "?w4\<lparr>options := filter (\<lambda>opt. o_question_id opt \<notin> set ?ids) (options ?w4)\<rparr>"
  have s5: "delete_options_by_ids ?ids ?w4 = (Returned (), ?w5)"
    using f4 by (rule delete_options_by_ids_healthy)
  have f5: "faults ?w5 = []" using assms by simp
  let ?w6 = "?w5\<lparr>questions := filter (\<lambda>q. q_id q \<notin> set ?ids) (questions ?w5)\<rparr>"
  have s6: "delete_questions_by_ids ?ids ?w5 = (Returned (), ?w6)"
    using f5 by (rule delete_questions_by_ids_healthy)
  have f6: "faults ?w6 = []" using assms by simp
  have s7: "select_questions (\<lambda>_. True) ?w6 = (Returned (filter (\<lambda>_. True) (questions ?w6)), ?w6)"
    using f6 by (rule select_questions_healthy)
  have s1: "select_questions (\<lambda>_. True) w = (Returned (questions w), w)"
    using assms by (simp add: select_questions_healthy)
  have s2: "select_options (\<lambda>opt. o_question_id opt \<in> set ?ids) w
      = (Returned (filter (\<lambda>opt. o_question_id opt \<in> set ?ids) (options w)), w)"
    using assms by (rule select_options_healthy)
  have "cleanupDatabase w =
      bind_io (select_options (\<lambda>opt. o_question_id opt \<in> set ?ids) w)
              (\<lambda>invalidOptions w2.
                 let invalidOptionIds = map o_id invalidOptions in
                 bind_io
                   (if length invalidOptionIds > 0
                    then delete_attempts (\<lambda>a. a_selected_option_id a \<in> set invalidOptionIds) w2
                    else (Returned (), w2))
                   (\<lambda>_ w3.
                      bind_io (delete_attempts (\<lambda>a. a_question_id a \<in> set ?ids) w3)
                        (\<lambda>_ w4.
                           bind_io (delete_options_by_ids ?ids w4)
                             (\<lambda>_ w5.
                                bind_io (delete_questions_by_ids ?ids w5)
                                  (\<lambda>_ w6.
                                     bind_io (select_questions (\<lambda>_. True) w6)
                                       (\<lambda>remainingQuestions w7. (Returned (), w7)))))))"
    using False
    by (simp add: cleanupDatabase_def s1 bind_io_simps Let_def del: set_map set_filter)
  also have "\<dots> = bind_io
                   (if length ?oids > 0
                    then delete_attempts (\<lambda>a. a_selected_option_id a \<in> set ?oids) w
                    else (Returned (), w))
                   (\<lambda>_ w3.
                      bind_io (delete_attempts (\<lambda>a. a_question_id a \<in> set ?ids) w3)
                        (\<lambda>_ w4.
                           bind_io (delete_options_by_ids ?ids w4)
                             (\<lambda>_ w5.
                                bind_io (delete_questions_by_ids ?ids w5)
                                  (\<lambda>_ w6.
                                     bind_io (select_questions (\<lambda>_. True) w6)
                                       (\<lambda>remainingQuestions w7. (Returned (), w7))))))"
    by (simp only: s2 bind_io_simps Let_def)
  also have "\<dots> = (Returned (), ?w6)"
    by (simp only: s3 s4 s5 s6 s7 bind_io_simps)
  finally have "cleanupDatabase w = (Returned (), ?w6)" .
  moreover have "?w6 = cleanup_result w"
    by (simp add: cleanup_result_def)
  ultimately show ?thesis by simp
qed

text \<open>
  Claim C3, as the code has it. On a store that does not fail and whose question
  identifiers are distinct, the cleanup removes exactly the questions its filter marks,
  with their options and the attempts on them: a question stays if and only if its module
  is a valid module, its topic is a valid topic and its text, in lower case, does not
  contain \<open>sample\<close>.
\<close>

theorem cleanupDatabase_removes_marked:
  assumes "faults w = []" and "distinct (map q_id (questions w))"
  shows "\<exists>w'. cleanupDatabase w = (Returned (), w')
           \<and> questions w' = filter (\<lambda>q. \<not> is_invalid q) (questions w)
           \<and> options w' = filter (\<lambda>opt. o_question_id opt \<notin> q_id ` set (filter is_invalid (questions w))) (options w)
           \<and> attempts w' =
                filter (\<lambda>a. a_question_id a \<notin> q_id ` set (filter is_invalid (questions w)))
                  (filter (\<lambda>a. a_selected_option_id a \<notin>
                       o_id ` set (filter (\<lambda>opt. o_question_id opt \<in> q_id ` set (filter is_invalid (questions w))) (options w)))
                     (attempts w))
           \<and> (\<forall>q\<in>set (questions w).
                 (q \<in> set (questions w')) =
                   (q_module_id q \<in> set validModules
                    \<and> (case q_topic q of None \<Rightarrow> [] | Some t \<Rightarrow> t) \<in> set validTopics
                    \<and> \<not> includes_str (toLowerCase (q_text q)) ''sample''))"
proof -
  have run: "cleanupDatabase w = (Returned (), cleanup_result w)"
    using assms(1) by (rule cleanupDatabase_healthy)
  have qs: "questions (cleanup_result w) = filter (\<lambda>q. \<not> is_invalid q) (questions w)"
    using filter_by_invalid_ids [OF assms(2)] by (simp add: cleanup_result_def)
  have os: "options (cleanup_result w)
      = filter (\<lambda>opt. o_question_id opt \<notin> q_id ` set (filter is_invalid (questions w))) (options w)"
    by (simp add: cleanup_result_def)
  have "\<forall>q\<in>set (questions w).
          (q \<in> set (questions (cleanup_result w))) =
             (q_module_id q \<in> set validModules
              \<and> (case q_topic q of None \<Rightarrow> [] | Some t \<Rightarrow> t) \<in> set validTopics
              \<and> \<not> includes_str (toLowerCase (q_text q)) ''sample'')"
    by (auto simp: qs is_invalid_def)
  moreover have "attempts (cleanup_result w) =
      filter (\<lambda>a. a_question_id a \<notin> q_id ` set (filter is_invalid (questions w)))
        (filter (\<lambda>a. a_selected_option_id a \<notin>
             o_id ` set (filter (\<lambda>opt. o_question_id opt \<in> q_id ` set (filter is_invalid (questions w))) (options w)))
           (attempts w))"
    by (simp add: cleanup_result_def)
  ultimately show ?thesis using run qs os by blast
qed

lemma store_mixed_kept:
  "filter (\<lambda>q. \<not> is_invalid q) (questions store_mixed) = questions example_store"
  by code_simp

theorem cleanupDatabase_removes_marked_witness:
  "\<exists>w'. cleanupDatabase store_mixed = (Returned (), w')
      \<and> questions w' = questions example_store
      \<and> questions store_mixed = questions example_store @ [general_question]"
proof -
  have f: "faults store_mixed = []" by (simp add: store_mixed_def example_store_def)
  have d: "distinct (map q_id (questions store_mixed))"
    by (simp add: store_mixed_def example_store_def general_question_def)
  from cleanupDatabase_removes_marked [OF f d] obtain w' where
    "cleanupDatabase store_mixed = (Returned (), w')"
    "questions w' = filter (\<lambda>q. \<not> is_invalid q) (questions store_mixed)"
    by blast
  then show ?thesis by (simp add: store_mixed_kept) (simp add: store_mixed_def)
qed

lemma sample_question_invalid: "is_invalid sample_question"
  by code_simp

text \<open>
  A question of a valid module and topic whose text contains the word is removed.
\<close>

theorem sample_text_counterexample:
  "cleanupDatabase store_with_sample = (Returned (), store_swept)
   \<and> questions store_with_sample = [sample_question]
   \<and> q_module_id sample_question = ''focs''
   \<and> q_topic sample_question = Some ''FOCS2''
   \<and> ''focs'' \<in> set validModules
   \<and> ''FOCS2'' \<in> set validTopics
   \<and> questions store_swept = []"
proof -
  have f: "faults store_with_sample = []" by (simp add: store_with_sample_def)
  have "cleanup_result store_with_sample = store_swept"
    using sample_question_invalid
    by (simp add: cleanup_result_def store_with_sample_def store_swept_def sample_question_def)
  then have "cleanupDatabase store_with_sample = (Returned (), store_swept)"
    by (simp add: cleanupDatabase_healthy [OF f])
  moreover have "''focs'' \<in> set validModules" "''FOCS2'' \<in> set validTopics"
    by (simp_all add: validModules_def validTopics_def)
  ultimately show ?thesis
    by (simp add: store_with_sample_def store_swept_def sample_question_def)
qed

subsection \<open>Other partitions\<close>

lemma untouched_refl: "wf_store w \<Longrightarrow> untouched m t w w"
  by (simp add: untouched_def)

lemma untouched_trans: "untouched m t w w1 \<Longrightarrow> untouched m t w1 w2 \<Longrightarrow> untouched m t w w2"
  by (simp add: untouched_def)

lemma untouched_wf: "untouched m t w w' \<Longrightarrow> wf_store w'"
  by (simp add: untouched_def)

lemma wf_store_advance [simp]: "wf_store (advance w) = wf_store w"
  by (simp add: wf_store_def advance_def)

lemma partition_questions_advance [simp]:
  "partition_questions m t (advance w) = partition_questions m t w"
  by (simp add: partition_questions_def)

lemma partition_options_advance [simp]:
  "partition_options m t (advance w) = partition_options m t w"
  by (simp add: partition_options_def partition_questions_def advance_def)

lemma partition_options_log_event [simp]:
  "partition_options m t (log_event e w) = partition_options m t w"
  by (simp add: partition_options_def partition_questions_def log_event_def)

lemma untouched_advance: "wf_store w \<Longrightarrow> untouched m t w (advance w)"
  by (simp add: untouched_def)

lemma untouched_log_event: "untouched m t w w' \<Longrightarrow> untouched m t w (log_event e w')"
  by (simp add: untouched_def)

lemma insert_option_untouched:
  assumes "insert_option qid x b w = (r, w')" and "wf_store w" and "qid < question_seq w"
    and "qid \<notin> q_id ` set (partition_questions m2 t2 w)"
  shows "untouched m2 t2 w w' \<and> questions w' = questions w \<and> question_seq w' = question_seq w"
  using assms
  by (auto simp: insert_option_def untouched_def wf_store_def advance_def
      partition_questions_def partition_options_def split: if_splits)

lemma insert_options_untouched:
  "insert_options qid xs ci j w = (r, w') \<Longrightarrow> wf_store w \<Longrightarrow> qid < question_seq w \<Longrightarrow>
   qid \<notin> q_id ` set (partition_questions m2 t2 w) \<Longrightarrow>
   untouched m2 t2 w w'"
proof (induction xs arbitrary: j w)
  case Nil
  then show ?case by (simp add: untouched_refl)
next
  case (Cons x xs)
  obtain r1 w1 where s: "insert_option qid x (ci = Some (int j)) w = (r1, w1)"
    by (cases "insert_option qid x (ci = Some (int j)) w")
  from insert_option_untouched [OF s Cons.prems(2,3,4)]
  have u1: "untouched m2 t2 w w1" and q1: "questions w1 = questions w"
    and n1: "question_seq w1 = question_seq w" by simp_all
  show ?case
  proof (cases r1)
    case Threw
    with Cons.prems(1) s have "w' = w1" by (simp add: bind_io_simps)
    with u1 show ?thesis by simp
  next
    case (Returned u)
    with Cons.prems(1) s have run: "insert_options qid xs ci (Suc j) w1 = (r, w')"
      by (simp add: bind_io_simps)
    have "qid \<notin> q_id ` set (partition_questions m2 t2 w1)"
      using Cons.prems(4) q1 by (simp add: partition_questions_def)
    from Cons.IH [OF run untouched_wf [OF u1] _ this] Cons.prems(3) n1
    have "untouched m2 t2 w1 w'" by simp
    with u1 show ?thesis by (rule untouched_trans)
  qed
qed

lemma insert_question_untouched:
  assumes "insert_question m1 (Some t1) x d s e w = (r, w')" and "wf_store w"
    and "(m2, t2) \<noteq> (m1, t1)"
  shows "untouched m2 t2 w w'
     \<and> (\<forall>qid. r = Returned qid \<longrightarrow>
           qid < question_seq w' \<and> qid \<notin> q_id ` set (partition_questions m2 t2 w'))"
proof (cases "raises w")
  case True
  with assms(1) have "w' = (advance w)\<lparr>question_seq := Suc (question_seq w)\<rparr>" "r = Threw"
    by (simp_all add: insert_question_def)
  with assms(2) show ?thesis
    by (auto simp: untouched_def wf_store_def advance_def partition_questions_def
        partition_options_def less_Suc_eq)
next
  case False
  let ?row = "\<lparr>q_id = question_seq w, q_module_id = m1, q_topic = Some t1, q_text = x,
                q_difficulty = d, q_slide_reference = s, q_explanation = e\<rparr>"
  from False assms(1) have w': "w' = (advance w)\<lparr>questions := questions w @ [?row],
        question_seq := Suc (question_seq w)\<rparr>" and r: "r = Returned (question_seq w)"
    by (simp_all add: insert_question_def)
  have notin: "\<not> in_partition m2 t2 ?row"
    using assms(3) by (auto simp: in_partition_def)
  have fresh: "question_seq w \<notin> q_id ` set (questions w)"
    using assms(2) by (auto simp: wf_store_def)
  have pq: "partition_questions m2 t2 w' = partition_questions m2 t2 w"
    using notin by (simp add: w' partition_questions_def advance_def)
  have po: "partition_options m2 t2 w' = partition_options m2 t2 w"
    using notin by (simp add: w' partition_options_def partition_questions_def advance_def)
  have wf: "wf_store w'"
    using assms(2) fresh by (auto simp: w' wf_store_def advance_def less_Suc_eq)
  have "question_seq w \<notin> q_id ` set (partition_questions m2 t2 w')"
    using fresh pq by (auto simp: partition_questions_def)
  with pq po wf r show ?thesis by (simp add: untouched_def w')
qed

lemma insert_row_untouched:
  assumes "bind_io (insert_question m1 (Some t1) x d s e w) (\<lambda>qid. insert_options qid opts ci 0) = (r, w')"
    and "wf_store w" and "(m2, t2) \<noteq> (m1, t1)"
  shows "untouched m2 t2 w w'"
proof -
  obtain r1 w1 where s1: "insert_question m1 (Some t1) x d s e w = (r1, w1)"
    by (cases "insert_question m1 (Some t1) x d s e w")
  note q = insert_question_untouched [OF s1 assms(2,3)]
  then have u1: "untouched m2 t2 w w1" by simp
  show ?thesis
  proof (cases r1)
    case Threw
    with assms(1) s1 have "w' = w1" by (simp add: bind_io_simps)
    with u1 show ?thesis by simp
  next
    case (Returned qid)
    with q have a: "qid < question_seq w1" "qid \<notin> q_id ` set (partition_questions m2 t2 w1)"
      by simp_all
    from assms(1) s1 Returned have "insert_options qid opts ci 0 w1 = (r, w')"
      by (simp add: bind_io_simps)
    from insert_options_untouched [OF this untouched_wf [OF u1] a]
    have "untouched m2 t2 w1 w'" .
    with u1 show ?thesis by (rule untouched_trans)
  qed
qed

lemma import_item_untouched:
  assumes "import_item m1 t1 item (n, w) = (n', w')" and "wf_store w" and "(m2, t2) \<noteq> (m1, t1)"
  shows "untouched m2 t2 w w'"
proof (cases "passes_validation item")
  case False
  with assms(1) have "w' = log_event Warn_invalid w" by (auto simp: passes_validation_def)
  with assms(2) show ?thesis by (simp add: untouched_log_event untouched_refl)
next
  case True
  let ?row = "bind_io
        (insert_question m1 (Some t1) (the (c_question item)) 2 (or_null (c_slideLink item)) None w)
        (\<lambda>questionId. insert_options questionId (the (c_options item)) (c_correctIndex item) 0)"
  obtain r1 w1 where s1: "?row = (r1, w1)" by (cases ?row)
  from insert_row_untouched [OF s1 assms(2,3)] have u1: "untouched m2 t2 w w1" .
  from assms(1) True s1 have "w' = w1 \<or> w' = log_event Error_importing w1"
    by (cases r1) (auto simp: passes_validation_def)
  with u1 show ?thesis by (auto simp: untouched_log_event)
qed

lemma import_batch_untouched:
  "import_batch m1 t1 qs (n, w) = (n', w') \<Longrightarrow> wf_store w \<Longrightarrow> (m2, t2) \<noteq> (m1, t1) \<Longrightarrow>
   untouched m2 t2 w w'"
proof (induction qs arbitrary: n w)
  case Nil
  then show ?case by (simp add: import_batch_def untouched_refl)
next
  case (Cons item qs)
  obtain n1 w1 where s: "import_item m1 t1 item (n, w) = (n1, w1)"
    by (cases "import_item m1 t1 item (n, w)")
  from import_item_untouched [OF s Cons.prems(2,3)] have u1: "untouched m2 t2 w w1" .
  from Cons.prems(1) s have "import_batch m1 t1 qs (n1, w1) = (n', w')"
    by (simp add: import_batch_def)
  from Cons.IH [OF this untouched_wf [OF u1] Cons.prems(3)] have "untouched m2 t2 w1 w'" .
  with u1 show ?case by (rule untouched_trans)
qed

lemma other_partition_ids:
  assumes "wf_store w" and "(m2, t2) \<noteq> (m1, t1)" and "q \<in> set (partition_questions m1 t1 w)"
  shows "q_id q \<notin> q_id ` set (partition_questions m2 t2 w)"
proof
  assume "q_id q \<in> q_id ` set (partition_questions m2 t2 w)"
  then obtain q' where q': "q' \<in> set (questions w)" "in_partition m2 t2 q'" "q_id q' = q_id q"
    by (auto simp: partition_questions_def)
  from assms(3) have q: "q \<in> set (questions w)" "in_partition m1 t1 q"
    by (simp_all add: partition_questions_def)
  from assms(1) have "inj_on q_id (set (questions w))"
    by (simp add: wf_store_def distinct_map)
  with q(1) q'(1,3) have "q' = q" by (auto dest: inj_onD)
  with q(2) q'(2) assms(2) show False by (auto simp: in_partition_def)
qed

lemma delete_options_untouched:
  assumes "delete_options (\<lambda>opt. o_question_id opt = qid) w = (r, w')" and "wf_store w"
    and "qid \<notin> q_id ` set (partition_questions m2 t2 w)"
  shows "untouched m2 t2 w w' \<and> questions w' = questions w"
proof -
  have "filter (\<lambda>opt. o_question_id opt \<in> q_id ` set (partition_questions m2 t2 w))
          (filter (\<lambda>opt. o_question_id opt \<noteq> qid) (options w))
      = filter (\<lambda>opt. o_question_id opt \<in> q_id ` set (partition_questions m2 t2 w)) (options w)"
    using assms(3) by (auto intro: filter_cong)
  with assms(1,2) show ?thesis
    by (auto simp: delete_options_def untouched_def wf_store_def advance_def
        partition_questions_def partition_options_def split: if_splits)
qed

lemma delete_options_of_untouched:
  "delete_options_of sel w = (r, w') \<Longrightarrow> wf_store w \<Longrightarrow>
   \<forall>q\<in>set sel. q_id q \<notin> q_id ` set (partition_questions m2 t2 w) \<Longrightarrow>
   untouched m2 t2 w w' \<and> questions w' = questions w"
proof (induction sel arbitrary: w)
  case Nil
  then show ?case by (simp add: untouched_refl)
next
  case (Cons q sel)
  obtain r1 w1 where s: "delete_options (\<lambda>opt. o_question_id opt = q_id q) w = (r1, w1)"
    by (cases "delete_options (\<lambda>opt. o_question_id opt = q_id q) w")
  from Cons.prems(3) have "q_id q \<notin> q_id ` set (partition_questions m2 t2 w)" by simp
  from delete_options_untouched [OF s Cons.prems(2) this]
  have u1: "untouched m2 t2 w w1" and q1: "questions w1 = questions w" by simp_all
  show ?case
  proof (cases r1)
    case Threw
    with Cons.prems(1) s have "w' = w1" by (simp add: bind_io_simps)
    with u1 q1 show ?thesis by simp
  next
    case (Returned u)
    with Cons.prems(1) s have run: "delete_options_of sel w1 = (r, w')" by (simp add: bind_io_simps)
    have "\<forall>q\<in>set sel. q_id q \<notin> q_id ` set (partition_questions m2 t2 w1)"
      using Cons.prems(3) q1 by (simp add: partition_questions_def)
    from Cons.IH [OF run untouched_wf [OF u1] this]
    have "untouched m2 t2 w1 w'" "questions w' = questions w1" by simp_all
    with u1 q1 show ?thesis by (auto intro: untouched_trans)
  qed
qed

lemma delete_questions_untouched:
  assumes "delete_questions (in_partition m1 t1) w = (r, w')" and "wf_store w"
    and "(m2, t2) \<noteq> (m1, t1)"
  shows "untouched m2 t2 w w'"
proof -
  have keep: "filter (in_partition m2 t2) (filter (\<lambda>q. \<not> in_partition m1 t1 q) (questions w))
      = filter (in_partition m2 t2) (questions w)"
    using assms(3) by (auto simp: in_partition_def intro: filter_cong)
  from assms(1) have "w' = advance w \<or> w' = (advance w)\<lparr>questions := filter (\<lambda>q. \<not> in_partition m1 t1 q) (questions w)\<rparr>"
    by (auto simp: delete_questions_def split: if_splits)
  then show ?thesis
  proof
    assume "w' = advance w"
    with assms(2) show ?thesis by (simp add: untouched_advance)
  next
    assume w': "w' = (advance w)\<lparr>questions := filter (\<lambda>q. \<not> in_partition m1 t1 q) (questions w)\<rparr>"
    have "wf_store w'"
      using assms(2) by (auto simp: w' wf_store_def advance_def distinct_map_filter)
    moreover have "partition_questions m2 t2 w' = partition_questions m2 t2 w"
      using keep by (simp add: w' partition_questions_def advance_def)
    moreover have "partition_options m2 t2 w' = partition_options m2 t2 w"
      using keep by (simp add: w' partition_options_def partition_questions_def advance_def del: set_filter)
    ultimately show ?thesis by (simp add: untouched_def)
  qed
qed

lemma deleteExistingQuestions_untouched:
  assumes "deleteExistingQuestions m1 t1 w = (r, w')" and "wf_store w" and "(m2, t2) \<noteq> (m1, t1)"
  shows "untouched m2 t2 w w'"
proof (cases "raises w")
  case True
  with assms(1) have "w' = advance w"
    by (simp add: deleteExistingQuestions_def select_questions_def bind_io_simps)
  with assms(2) show ?thesis by (simp add: untouched_advance)
next
  case False
  let ?sel = "filter (in_partition m1 t1) (questions w)"
  have u0: "untouched m2 t2 w (advance w)" using assms(2) by (rule untouched_advance)
  show ?thesis
  proof (cases "?sel = []")
    case True
    with False assms(1) have "w' = advance w"
      by (simp add: deleteExistingQuestions_def select_questions_def bind_io_simps)
    with u0 show ?thesis by simp
  next
    case ne: False
    obtain r2 w2 where s2: "delete_options_of ?sel (advance w) = (r2, w2)"
      by (cases "delete_options_of ?sel (advance w)")
    have ids: "\<forall>q\<in>set ?sel. q_id q \<notin> q_id ` set (partition_questions m2 t2 (advance w))"
    proof
      fix q assume "q \<in> set ?sel"
      then have "q \<in> set (partition_questions m1 t1 w)" by (simp add: partition_questions_def)
      from other_partition_ids [OF assms(2,3) this]
      show "q_id q \<notin> q_id ` set (partition_questions m2 t2 (advance w))"
        by (simp add: partition_questions_def advance_def)
    qed
    from delete_options_of_untouched [OF s2 untouched_wf [OF u0] ids]
    have u2: "untouched m2 t2 (advance w) w2" by simp
    show ?thesis
    proof (cases r2)
      case Threw
      with False ne assms(1) s2 have "w' = w2"
        by (simp add: deleteExistingQuestions_def select_questions_def bind_io_simps)
      with u0 u2 show ?thesis by (auto intro: untouched_trans)
    next
      case (Returned u)
      obtain r3 w3 where s3: "delete_questions (in_partition m1 t1) w2 = (r3, w3)"
        by (cases "delete_questions (in_partition m1 t1) w2")
      from delete_questions_untouched [OF s3 untouched_wf [OF u2] assms(3)]
      have u3: "untouched m2 t2 w2 w3" .
      from False ne assms(1) s2 Returned s3 have "w' = w3"
        by (cases r3) (simp_all add: deleteExistingQuestions_def select_questions_def bind_io_simps)
      with u0 u2 u3 show ?thesis by (auto intro: untouched_trans)
    qed
  qed
qed

lemma partition_content_rows:
  "partition_content m t w =
     map (\<lambda>q. (q_text q, q_difficulty q, q_slide_reference q, q_explanation q,
               map (\<lambda>opt. (o_text opt, o_is_correct opt))
                 (filter (\<lambda>opt. o_question_id opt = q_id q) (partition_options m t w))))
       (partition_questions m t w)"
proof -
  have "\<And>q. q \<in> set (partition_questions m t w) \<Longrightarrow>
      filter (\<lambda>opt. o_question_id opt = q_id q) (partition_options m t w) = options_of w (q_id q)"
  proof -
    fix q assume q: "q \<in> set (partition_questions m t w)"
    have "filter (\<lambda>opt. o_question_id opt \<in> q_id ` set (partition_questions m t w) \<and> o_question_id opt = q_id q)
            (options w)
        = filter (\<lambda>opt. o_question_id opt = q_id q) (options w)"
    proof (rule filter_cong [OF refl])
      fix opt
      from q have "q_id q \<in> q_id ` set (partition_questions m t w)" by (rule imageI)
      then show "(o_question_id opt \<in> q_id ` set (partition_questions m t w) \<and> o_question_id opt = q_id q)
          = (o_question_id opt = q_id q)"
        by metis
    qed
    then have "filter (\<lambda>opt. o_question_id opt = q_id q)
            (filter (\<lambda>opt. o_question_id opt \<in> q_id ` set (partition_questions m t w)) (options w))
        = filter (\<lambda>opt. o_question_id opt = q_id q) (options w)"
      by (simp only: filter_filter)
    then show "filter (\<lambda>opt. o_question_id opt = q_id q) (partition_options m t w) = options_of w (q_id q)"
      by (simp only: partition_options_def options_of_def)
  qed
  then show ?thesis
    by (simp add: partition_content_def question_content_def)
qed

lemma untouched_content:
  "untouched m t w w' \<Longrightarrow> partition_content m t w' = partition_content m t w"
  by (simp add: untouched_def partition_content_rows)

text \<open>
  Claim C7. For two different partition keys, \<open>processModule\<close> on the first leaves the
  second as it was, whatever the faults of the store: the call returns, and the second
  partition has the same question rows, the same option rows and hence the same content.
  The identifiers of the store are assumed well formed.
\<close>

theorem processModule_other_partition_untouched:
  assumes "wf_store w" and "(m2, t2) \<noteq> (m1, t1)"
  shows "\<exists>r w'. processModule m1 t1 qs w = Some (r, w')
           \<and> partition_questions m2 t2 w' = partition_questions m2 t2 w
           \<and> partition_options m2 t2 w' = partition_options m2 t2 w
           \<and> partition_content m2 t2 w' = partition_content m2 t2 w"
proof -
  have "\<exists>r w'. processModule m1 t1 qs w = Some (r, w') \<and> untouched m2 t2 w w'"
  proof (cases "qs = []")
    case True
    then have "processModule m1 t1 qs w = Some (Returned (), log_event Error_no_questions w)"
      by (simp add: processModule_def)
    moreover have "untouched m2 t2 w (log_event Error_no_questions w)"
      using assms(1) by (simp add: untouched_log_event untouched_refl)
    ultimately show ?thesis by blast
  next
    case False
    obtain r1 w1 where s1: "deleteExistingQuestions m1 t1 w = (r1, w1)"
      by (cases "deleteExistingQuestions m1 t1 w")
    from deleteExistingQuestions_untouched [OF s1 assms] have u1: "untouched m2 t2 w w1" .
    show ?thesis
    proof (cases r1)
      case Threw
      with False s1 have "processModule m1 t1 qs w = Some (Threw, w1)"
        by (simp add: processModule_def)
      with u1 show ?thesis by blast
    next
      case (Returned n)
      obtain n2 w2 where s2: "import_batch m1 t1 qs (0, w1) = (n2, w2)"
        by (cases "import_batch m1 t1 qs (0, w1)")
      from import_batch_untouched [OF s2 untouched_wf [OF u1] assms(2)]
      have u2: "untouched m2 t2 w1 w2" .
      from False s1 Returned s2 have "processModule m1 t1 qs w = Some (Returned (), w2)"
        by (simp add: processModule_def importQuestions_total)
      moreover from u1 u2 have "untouched m2 t2 w w2" by (rule untouched_trans)
      ultimately show ?thesis by blast
    qed
  qed
  then obtain r w' where run: "processModule m1 t1 qs w = Some (r, w')"
    and u: "untouched m2 t2 w w'" by blast
  from u have "partition_questions m2 t2 w' = partition_questions m2 t2 w"
    "partition_options m2 t2 w' = partition_options m2 t2 w"
    by (simp_all add: untouched_def)
  moreover from u have "partition_content m2 t2 w' = partition_content m2 t2 w"
    by (rule untouched_content)
  ultimately show ?thesis using run by blast
qed

theorem processModule_other_partition_untouched_witness:
  "\<exists>r w'. processModule ''focs'' ''FOCS2'' [record_B, record_no_text] (store_mixed\<lparr>faults := [False, False, False, False, True]\<rparr>) = Some (r, w')
      \<and> partition_questions ''focs'' ''General'' w' = [general_question]
      \<and> partition_options ''focs'' ''General'' w'
           = [\<lparr>o_id = 2, o_question_id = 2, o_text = ''A unit of life'', o_is_correct = True\<rparr>]
      \<and> partition_content ''focs'' ''General'' w' = [(''What is a cell?'', 2, Some [], Some [], [(''A unit of life'', True)])]"
proof -
  let ?w = "store_mixed\<lparr>faults := [False, False, False, False, True]\<rparr>"
  have wf: "wf_store ?w"
    by (simp add: wf_store_def store_mixed_def example_store_def general_question_def)
  have ne: "(''focs'', ''General'') \<noteq> (''focs'', ''FOCS2'')" by simp
  have pq: "partition_questions ''focs'' ''General'' ?w = [general_question]"
    by (simp add: partition_questions_def in_partition_def store_mixed_def example_store_def
        general_question_def)
  have po: "partition_options ''focs'' ''General'' ?w
           = [\<lparr>o_id = 2, o_question_id = 2, o_text = ''A unit of life'', o_is_correct = True\<rparr>]"
    by (simp add: partition_options_def pq del: set_filter)
       (simp add: store_mixed_def example_store_def general_question_def)
  have pc: "partition_content ''focs'' ''General'' ?w
      = [(''What is a cell?'', 2, Some [], Some [], [(''A unit of life'', True)])]"
    by (simp add: partition_content_rows pq po) (simp add: general_question_def)
  from processModule_other_partition_untouched [OF wf ne, of "[record_B, record_no_text]"]
  show ?thesis by (simp only: pq po pc)
qed

subsection \<open>Difficulty, all import paths\<close>

lemma level2_added_questions:
  "level2_added w u \<Longrightarrow> questions w' = questions u \<Longrightarrow> level2_added w w'"
  by (simp add: level2_added_def)

lemma level2_added_seed_item: "level2_added w (seed_item m t item w)"
  by (auto simp: level2_added_def seed_item_def)

lemma level2_added_seed_all: "level2_added w (seed_all m t qs w)"
proof (induction qs arbitrary: w)
  case Nil
  then show ?case by (simp add: level2_added_refl)
next
  case (Cons item qs)
  have "level2_added w (skip_or_seed m t item w)"
    by (simp add: skip_or_seed_def level2_added_seed_item level2_added_same)
  moreover have "level2_added (skip_or_seed m t item w) (seed_all m t qs (skip_or_seed m t item w))"
    by (rule Cons.IH)
  ultimately show ?case by (auto intro: level2_added_trans)
qed

lemma level2_added_clear_partition: "level2_added w (clear_partition m t w)"
  by (simp add: level2_added_def clear_partition_def)

lemma tables_questions: "tables w' = tables u \<Longrightarrow> questions w' = questions u"
  by (simp add: tables_def)

lemma importQuestions_module_level2:
  assumes "0 < batchSize"
  shows "\<exists>r w'. importQuestions_module m t qs batchSize w = Some (r, w') \<and> level2_added w w'"
proof -
  let ?T = "toUpperCase t"
  from importQuestions_module_outcome [OF assms, of m t qs w]
  obtain r w' where run: "importQuestions_module m t qs batchSize w = Some (r, w')"
    and sn: "snapshot w' = None"
    and out: "case r of
                 Returned n \<Rightarrow> n = length qs
                   \<and> tables w' = tables (seed_all m ?T qs (clear_partition m ?T w))
               | Threw \<Rightarrow> tables w' = tables w
                   \<or> (\<exists>k. k * batchSize < length qs
                         \<and> tables w' = tables (seed_all m ?T (take (k * batchSize) qs)
                                            (clear_partition m ?T w)))"
    by (elim exE conjE) (rule that)
  have seeded: "\<And>xs. level2_added w (seed_all m ?T xs (clear_partition m ?T w))"
    by (rule level2_added_trans [OF level2_added_clear_partition level2_added_seed_all])
  have "level2_added w w'"
  proof (cases r)
    case (Returned n)
    with out have "tables w' = tables (seed_all m ?T qs (clear_partition m ?T w))"
      by simp
    then have "questions w' = questions (seed_all m ?T qs (clear_partition m ?T w))"
      by (rule tables_questions)
    with seeded show ?thesis by (rule level2_added_questions)
  next
    case Threw
    with out have "tables w' = tables w
        \<or> (\<exists>k. tables w' = tables (seed_all m ?T (take (k * batchSize) qs) (clear_partition m ?T w)))"
      by (simp only: result.case) blast
    then show ?thesis
    proof
      assume "tables w' = tables w"
      then have "questions w' = questions w" by (rule tables_questions)
      with level2_added_refl show ?thesis by (rule level2_added_questions)
    next
      assume "\<exists>k. tables w' = tables (seed_all m ?T (take (k * batchSize) qs) (clear_partition m ?T w))"
      then obtain k where "tables w' = tables (seed_all m ?T (take (k * batchSize) qs) (clear_partition m ?T w))"
        by (elim exE)
      then have "questions w' = questions (seed_all m ?T (take (k * batchSize) qs) (clear_partition m ?T w))"
        by (rule tables_questions)
      with seeded show ?thesis by (rule level2_added_questions)
    qed
  qed
  with run show ?thesis by blast
qed

text \<open>
  Claim C10. Whatever the records and whatever the faults, each import path ends, and every
  question of the store it leaves is a question of the store it started from or has
  difficulty 2: \<open>importQuestions\<close> of \<open>scripts/import.ts\<close>,
  \<open>importQuestionsForTopic\<close>, \<open>importQuestions\<close> of the server scripts, and
  \<open>importQuestions\<close> of \<open>scripts/import-module.js\<close> with a batch size of at
  least 1.
\<close>

theorem inserted_questions_have_difficulty_2:
  "(\<exists>n w'. importQuestions m t qs w = Some (n, w') \<and> level2_added w w')
   \<and> (\<exists>n w'. importQuestionsForTopic m t qs w = Some (n, w') \<and> level2_added w w')
   \<and> (\<exists>r w'. importQuestions_server m qs w = (r, w') \<and> level2_added w w')
   \<and> (0 < batchSize \<longrightarrow>
        (\<exists>r w'. importQuestions_module m t qs batchSize w = Some (r, w') \<and> level2_added w w'))"
proof -
  obtain n w1 where s1: "import_batch m t qs (0, w) = (n, w1)"
    by (cases "import_batch m t qs (0, w)")
  then have l1: "level2_added w w1" by (rule import_batch_level2)
  from s1 have r1: "importQuestions m t qs w = Some (n, w1)"
    by (simp add: importQuestions_total)
  then have r2: "importQuestionsForTopic m t qs w = Some (n, w1)"
    by (simp add: importQuestionsForTopic_def)
  obtain r w3 where s3: "importQuestions_server m qs w = (r, w3)"
    by (cases "importQuestions_server m qs w")
  then have l3: "level2_added w w3" by (rule importQuestions_server_level2)
  from r1 r2 l1 s3 l3 importQuestions_module_level2 [of batchSize m t qs w]
  show ?thesis by blast
qed

theorem inserted_questions_have_difficulty_2_witness:
  "(\<exists>n w'. importQuestions ''focs'' ''FOCS2'' [record_B] store_with_hard_question = Some (n, w')
        \<and> level2_added store_with_hard_question w')
   \<and> (\<exists>n w'. importQuestionsForTopic ''focs'' ''FOCS2'' [record_B] store_with_hard_question = Some (n, w')
        \<and> level2_added store_with_hard_question w')
   \<and> (\<exists>r w'. importQuestions_server ''focs'' [record_B] store_with_hard_question = (r, w')
        \<and> level2_added store_with_hard_question w')
   \<and> (\<exists>r w'. importQuestions_module ''focs'' ''FOCS2'' [record_B] 10 store_with_hard_question = Some (r, w')
        \<and> level2_added store_with_hard_question w')"
  using inserted_questions_have_difficulty_2 [of "''focs''" "''FOCS2''" "[record_B]" store_with_hard_question 10]
  by simp

end
